theory Spec2Isabelle
  imports Complex_Main "HOL-Library.Word"
begin

unbundle bit_operations_syntax

section \<open>Collaborators: display, delay and the sensor bus\<close>

text \<open>
  The display driver, the delay routine and \<open>printf\<close> are external. A call to one of
  them is recorded as an \<open>effect\<close>; coordinates and scale factors are the C arguments in
  order.
\<close>

datatype colour = OLEDC_COLOR_BLACK | OLEDC_COLOR_WHITE | OLEDC_COLOR_DARKRED

datatype effect =
    DELAY_milliseconds nat
  | oledC_clearScreen
  | oledC_DrawString nat nat nat nat string colour
  | oledC_DrawRectangle nat nat nat nat colour
  | printf string

text \<open>
  \<open>i2cReadSlaveRegister\<close> answers with a status and, when the status is \<open>OK\<close>, a byte.
  The bus is a function from the number of the transaction and the register address to
  \<open>Some byte\<close> (status \<open>OK\<close>) or \<open>None\<close> (any other status). \<open>calls\<close> counts the
  transactions made so far, \<open>trace\<close> lists the effects in the order they happened.
\<close>

type_synonym bus = "nat \<Rightarrow> 8 word \<Rightarrow> 8 word option"

record io =
  calls :: nat
  trace :: "effect list"

text \<open>
  \<open>Halted\<close>: the function entered the idle loop of \<open>haltWithError\<close> and never returns.
  \<open>Indeterminate\<close>: a retry loop ended without a \<open>break\<close>, leaving the byte unassigned.
\<close>

datatype 'a result = Ok 'a io | Halted io | Indeterminate io

definition haltWithError :: "string \<Rightarrow> io \<Rightarrow> 'a result" where
  "haltWithError message s =
     Halted (s\<lparr>trace := trace s @
       [oledC_DrawString 0 20 1 1 message OLEDC_COLOR_DARKRED,
        printf (''Error: '' @ message @ [CHR 0x0A])]\<rparr>)"

definition retries :: nat where
  "retries = 3"

text \<open>
  One retry loop of \<open>readAccelerometerAxis\<close>, entered with the loop counter \<open>i\<close>:
  \<^verbatim>\<open>for (; i < retries; i++) { if (read == OK) break;
       if (i == retries - 1) haltWithError(msg); DELAY_milliseconds(10); }\<close>
\<close>

function readRegisterRetry :: "bus \<Rightarrow> 8 word \<Rightarrow> string \<Rightarrow> nat \<Rightarrow> io \<Rightarrow> 8 word result" where
  "readRegisterRetry b registerAddress message i s =
     (if i < retries then
        (let s1 = s\<lparr>calls := calls s + 1\<rparr> in
         case b (calls s) registerAddress of
           Some byte \<Rightarrow> Ok byte s1
         | None \<Rightarrow>
             if i = retries - 1 then haltWithError message s1
             else readRegisterRetry b registerAddress message (i + 1)
                    (s1\<lparr>trace := trace s1 @ [DELAY_milliseconds 10]\<rparr>))
      else Indeterminate s)"
  by pat_completeness auto
termination
  by (relation "measure (\<lambda>(b, r, m, i, s). retries - i)") auto

declare readRegisterRetry.simps [simp del]

definition readAccelerometerAxis :: "bus \<Rightarrow> 8 word \<Rightarrow> io \<Rightarrow> 16 word result" where
  "readAccelerometerAxis b registerAddress s =
     (case readRegisterRetry b registerAddress ''I2C Read Error (LSB)'' 0 s of
        Halted s1 \<Rightarrow> Halted s1
      | Indeterminate s1 \<Rightarrow> Indeterminate s1
      | Ok lowByte s1 \<Rightarrow>
          (case readRegisterRetry b (registerAddress + 1) ''I2C Read Error (MSB)'' 0 s1 of
             Halted s2 \<Rightarrow> Halted s2
           | Indeterminate s2 \<Rightarrow> Indeterminate s2
           | Ok highByte s2 \<Rightarrow> Ok (push_bit 8 (ucast highByte) OR ucast lowByte) s2))"


section \<open>Data structures and globals of main.c\<close>

record TimeSetting =
  hours :: "8 word"
  minutes :: "8 word"

record DateSetting =
  day :: "8 word"
  month :: "8 word"

record ClockTime =
  hours :: "8 word"
  minutes :: "8 word"
  seconds :: "8 word"
  day :: "8 word"
  month :: "8 word"

text \<open>
  The globals of main.c, followed by the \<open>static\<close> locals of its functions
  (\<open>T1_button1HoldCount\<close>, \<open>previousStepCount\<close> and \<open>inactivityCount\<close> of
  \<open>_T1Interrupt\<close>; \<open>graph_button1HoldCount\<close> of \<open>displayStepGraph\<close>;
  \<open>previousTime\<close> of \<open>updateMenuTimeDisplay\<close>; \<open>wasInMenu\<close>,
  \<open>button1WasPressed\<close>, \<open>button2WasPressed\<close> and \<open>comboPressCount\<close> of \<open>main\<close>)
  and by \<open>tiltCount\<close>, the local counter of the set-time or set-date page that is running.
  \<open>float\<close> variables hold the real number that is the value of the float.
\<close>

record WatchState =
  stepRateHistory :: "8 word list"
  currentStepPace :: real
  isGraphDisplayed :: bool
  timeToSet :: TimeSetting
  timeFieldSelected :: "8 word"
  dateToSet :: DateSetting
  dateFieldSelected :: "8 word"
  wasStepThresholdExceeded :: bool
  isMovementActive :: bool
  totalSteps :: "16 word"
  stepsPerSecond :: "8 word list"
  currentSecondIndex :: "8 word"
  displayedStepPace :: real
  elapsedSeconds :: "32 word"
  use12HourFormat :: bool
  inTimeFormatMenu :: bool
  inTimeSetMenu :: bool
  timeFormatOption :: "8 word"
  showFootIcon :: bool
  redrawClock :: bool
  justEnteredMenu :: bool
  inMainMenu :: bool
  systemClock :: ClockTime
  currentMenuSelection :: "8 word"
  T1_button1HoldCount :: "8 word"
  previousStepCount :: "16 word"
  inactivityCount :: "8 word"
  graph_button1HoldCount :: "8 word"
  previousTime :: string
  wasInMenu :: bool
  button1WasPressed :: bool
  button2WasPressed :: bool
  comboPressCount :: "8 word"
  tiltCount :: int

definition STEP_THRESHOLD :: real where
  "STEP_THRESHOLD = 900"

definition GRAPH_WIDTH :: nat where
  "GRAPH_WIDTH = 90"

definition HISTORY_SIZE :: nat where
  "HISTORY_SIZE = 60"

definition MENU_ITEM_COUNT :: nat where
  "MENU_ITEM_COUNT = 5"

definition DAYS_PER_MONTH :: "8 word list" where
  "DAYS_PER_MONTH = [31, 28, 31, 30, 31, 30, 31, 31, 30, 31, 30, 31]"

definition MENU_OPTIONS :: "string list" where
  "MENU_OPTIONS = [''PedometerGraph'', ''12H/24H'', ''Set Time'', ''Set Date'', ''Exit'']"

section \<open>ClockModel\<close>

text \<open>
  \<open>DAYS_PER_MONTH[month - 1]\<close>: the index is computed in \<open>int\<close>; for a month outside
  1..12 the read is outside the table, which is undefined behaviour (\<open>None\<close>).
\<close>

definition DAYS_PER_MONTH_at :: "8 word \<Rightarrow> 8 word option" where
  "DAYS_PER_MONTH_at m =
     (if 1 \<le> m \<and> m \<le> 12 then Some (DAYS_PER_MONTH ! (unat m - 1)) else None)"

definition advanceDate :: "ClockTime \<Rightarrow> ClockTime option" where
  "advanceDate t =
     (let t1 = t\<lparr>day := day t + 1\<rparr> in
      case DAYS_PER_MONTH_at (month t1) of
        None \<Rightarrow> None
      | Some maxDays \<Rightarrow>
          if day t1 > maxDays then
            (let t2 = t1\<lparr>day := 1, month := month t1 + 1\<rparr> in
             if month t2 > 12 then Some (t2\<lparr>month := 1\<rparr>) else Some t2)
          else Some t1)"

definition incrementSystemTime :: "ClockTime \<Rightarrow> ClockTime option" where
  "incrementSystemTime t =
     (let t1 = t\<lparr>seconds := seconds t + 1\<rparr>;
          t2 = (if seconds t1 \<ge> 60 then t1\<lparr>seconds := 0, minutes := minutes t1 + 1\<rparr> else t1);
          t3 = (if minutes t2 \<ge> 60 then t2\<lparr>minutes := 0, hours := hours t2 + 1\<rparr> else t2)
      in if hours t3 \<ge> 24 then advanceDate (t3\<lparr>hours := 0\<rparr>) else Some t3)"

text \<open>Advancing by one second \<open>n\<close> times, as \<open>n\<close> ticks of the timer do.\<close>

fun advanceTimes :: "nat \<Rightarrow> ClockTime \<Rightarrow> ClockTime option" where
  "advanceTimes 0 t = Some t"
| "advanceTimes (Suc n) t =
     (case incrementSystemTime t of None \<Rightarrow> None | Some t' \<Rightarrow> advanceTimes n t')"

text \<open>
  The data model's ranges and invariant: hours 0--23, minutes and seconds 0--59, month
  1--12, day between 1 and the month's entry of the table.
\<close>

definition ClockTime_inv :: "ClockTime \<Rightarrow> bool" where
  "ClockTime_inv t \<longleftrightarrow>
     hours t < 24 \<and> minutes t < 60 \<and> seconds t < 60 \<and> 1 \<le> month t \<and> month t \<le> 12 \<and>
     1 \<le> day t \<and> day t \<le> DAYS_PER_MONTH ! (unat (month t) - 1)"

text \<open>
  Modelled time, following the specification rather than the code: a clock value is a
  number of seconds since 1 January 00:00:00 of a year of 365 days whose months have the
  lengths of the table; advancing by \<open>n\<close> seconds adds \<open>n\<close> to that number, modulo the
  length of the year, and reads the result back as a clock value.
\<close>

definition dayOfYear :: "nat \<Rightarrow> nat \<Rightarrow> nat" where
  "dayOfYear m d = sum_list (take (m - 1) (map unat DAYS_PER_MONTH)) + (d - 1)"

definition secondsOfYear :: "ClockTime \<Rightarrow> nat" where
  "secondsOfYear t =
     ((dayOfYear (unat (month t)) (unat (day t)) * 24 + unat (hours t)) * 60
        + unat (minutes t)) * 60 + unat (seconds t)"

fun dateOfDay :: "nat \<Rightarrow> nat list \<Rightarrow> nat \<Rightarrow> nat \<times> nat" where
  "dateOfDay n [] m = (m, n + 1)"
| "dateOfDay n (len # rest) m =
     (if n < len then (m, n + 1) else dateOfDay (n - len) rest (m + 1))"

definition clockOfSeconds :: "nat \<Rightarrow> ClockTime" where
  "clockOfSeconds n =
     (let (m, d) = dateOfDay (n div 86400) (map unat DAYS_PER_MONTH) 1 in
      \<lparr>hours = of_nat (n div 3600 mod 24), minutes = of_nat (n div 60 mod 60),
       seconds = of_nat (n mod 60), day = of_nat d, month = of_nat m\<rparr>)"

definition secondsPerYear :: nat where
  "secondsPerYear = 365 * 86400"

definition advanceSeconds :: "nat \<Rightarrow> ClockTime \<Rightarrow> ClockTime" where
  "advanceSeconds n t = clockOfSeconds ((secondsOfYear t + n) mod secondsPerYear)"

section \<open>StepDetector\<close>

text \<open>
  \<open>detectStep\<close> of main.c. Its first lines read the three axes (\<open>readAccelerometerAxis\<close>
  above) and compute the float \<open>dynamicForce\<close>; the value of that float is the parameter
  here. \<open>stepsPerSecond[currentSecondIndex]++\<close> with an index outside the array is undefined
  behaviour (\<open>None\<close>).
\<close>

definition detectStep :: "real \<Rightarrow> WatchState \<Rightarrow> WatchState option" where
  "detectStep dynamicForce s =
     (let exceedsThreshold = (dynamicForce > STEP_THRESHOLD);
          s1 = s\<lparr>isMovementActive := exceedsThreshold\<rparr>
      in if exceedsThreshold \<and> \<not> wasStepThresholdExceeded s1 then
           (let i = unat (currentSecondIndex s1) in
            if i < HISTORY_SIZE then
              Some (s1\<lparr>totalSteps := totalSteps s1 + 1,
                      stepsPerSecond := (stepsPerSecond s1)[i := stepsPerSecond s1 ! i + 1],
                      wasStepThresholdExceeded := exceedsThreshold\<rparr>)
            else None)
         else Some (s1\<lparr>wasStepThresholdExceeded := exceedsThreshold\<rparr>))"

text \<open>Consecutive calls, one per sample, with no timer tick in between.\<close>

fun detectSteps :: "real list \<Rightarrow> WatchState \<Rightarrow> WatchState option" where
  "detectSteps [] s = Some s"
| "detectSteps (f # fs) s =
     (case detectStep f s of None \<Rightarrow> None | Some s1 \<Rightarrow> detectSteps fs s1)"

text \<open>\<open>detectStep\<close> of working_acc.c: the same detector with threshold 200 and no buckets.\<close>

record StepGlobals =
  wasAboveThreshold :: bool
  movementDetected :: bool
  stepCount :: "16 word"

definition detectStep_working_acc :: "real \<Rightarrow> StepGlobals \<Rightarrow> StepGlobals" where
  "detectStep_working_acc dynamic g =
     (let threshold = 200;
          above = (dynamic > threshold);
          g1 = g\<lparr>movementDetected := above\<rparr>;
          g2 = (if above \<and> \<not> wasAboveThreshold g1 then g1\<lparr>stepCount := stepCount g1 + 1\<rparr>
                else g1)
      in g2\<lparr>wasAboveThreshold := above\<rparr>)"

fun detectSteps_working_acc :: "real list \<Rightarrow> StepGlobals \<Rightarrow> StepGlobals" where
  "detectSteps_working_acc [] g = g"
| "detectSteps_working_acc (f # fs) g = detectSteps_working_acc fs (detectStep_working_acc f g)"

text \<open>
  The number of maximal runs of \<open>True\<close> in a list of flags, and the number of runs that
  start inside the list when the flag before the list is \<open>prev\<close> (a run that continues
  \<open>prev\<close> started earlier).
\<close>

definition maximalRuns :: "bool list \<Rightarrow> nat" where
  "maximalRuns bs = length (filter (\<lambda>b. b) (remdups_adj bs))"

definition runsStarted :: "bool \<Rightarrow> bool list \<Rightarrow> nat" where
  "runsStarted prev bs = maximalRuns (prev # bs) - (if prev then 1 else 0)"

definition exceedsThreshold :: "real \<Rightarrow> bool" where
  "exceedsThreshold dynamicForce \<longleftrightarrow> dynamicForce > STEP_THRESHOLD"

definition atOrAboveThreshold :: "real \<Rightarrow> bool" where
  "atOrAboveThreshold dynamicForce \<longleftrightarrow> dynamicForce \<ge> STEP_THRESHOLD"

section \<open>PaceEstimator\<close>

text \<open>
  \<open>displayedStepPace += 2.0f\<close> and \<open>-= 2.0f\<close> are float additions: the exact sum is
  rounded to the nearest float (IEEE 754 binary32: 24 significant bits, exponents -126 to
  127, ties to the even significand). \<open>float32_exponent x\<close> is the least exponent \<open>e\<close>
  within -126..127 with \<open>|x| < 2 ^ (e + 1)\<close>; the floats of that binade are the multiples
  of \<open>2 ^ (e - 23)\<close>. Sums beyond the float range do not arise from adding 2.
\<close>

definition roundTiesToEven :: "real \<Rightarrow> int" where
  "roundTiesToEven q =
     (let f = \<lfloor>q\<rfloor> in
      if q - of_int f < 1/2 then f
      else if q - of_int f > 1/2 then f + 1
      else if even f then f else f + 1)"

definition float32_exponent :: "real \<Rightarrow> int" where
  "float32_exponent x =
     (case find (\<lambda>e. \<bar>x\<bar> < 2 powi (e + 1)) [-126..127] of Some e \<Rightarrow> e | None \<Rightarrow> 127)"

definition float32_round :: "real \<Rightarrow> real" where
  "float32_round x =
     (let ulp = 2 powi (float32_exponent x - 23)
      in of_int (roundTiesToEven (x / ulp)) * ulp)"

text \<open>
  The pace update of the foreground loop (main, non-menu branch), from the current
  \<open>displayedStepPace\<close> and \<open>currentStepPace\<close> to the new \<open>displayedStepPace\<close>. The
  comparisons and the assignments of \<open>rawPace\<close>, 0 and 100 are exact.
\<close>

definition updateDisplayedStepPace :: "real \<Rightarrow> real \<Rightarrow> real" where
  "updateDisplayedStepPace currentDisplayPace rawPace =
     (let d1 = (if currentDisplayPace < rawPace then
                  (let d = float32_round (currentDisplayPace + 2)
                   in if d > rawPace then rawPace else d)
                else if currentDisplayPace > rawPace then
                  (let d = float32_round (currentDisplayPace - 2)
                   in if d < rawPace then rawPace else d)
                else currentDisplayPace)
      in if d1 < 0.5 then 0 else if d1 > 100 then 100 else d1)"

text \<open>\<open>n\<close> foreground iterations with \<open>currentStepPace\<close> held at \<open>rawPace\<close>.\<close>

fun paceAfter :: "nat \<Rightarrow> real \<Rightarrow> real \<Rightarrow> real" where
  "paceAfter 0 displayed rawPace = displayed"
| "paceAfter (Suc n) displayed rawPace =
     paceAfter n (updateDisplayedStepPace displayed rawPace) rawPace"

text \<open>The value that the final clamp and snap of the update leave a target at.\<close>

definition clampedTarget :: "real \<Rightarrow> real" where
  "clampedTarget rawPace = (if rawPace < 0.5 then 0 else if rawPace > 100 then 100 else rawPace)"

section \<open>Main menu rendering\<close>

definition formatTwoDigits :: "8 word \<Rightarrow> string" where
  "formatTwoDigits v = [char_of (unat v div 10 + 48), char_of (unat v mod 10 + 48)]"

definition updateMenuTimeDisplay :: "WatchState \<Rightarrow> WatchState \<times> effect list" where
  "updateMenuTimeDisplay s =
     (let h = hours (systemClock s);
          displayHours =
            (if use12HourFormat s then
               (if h \<ge> 12 then (if h > 12 then h - 12 else h)
                else if h = 0 then 12 else h)
             else h);
          currentTimeStr =
            formatTwoDigits displayHours @ '':'' @ formatTwoDigits (minutes (systemClock s))
              @ '':'' @ formatTwoDigits (seconds (systemClock s))
      in if previousTime s \<noteq> currentTimeStr then
           (s\<lparr>previousTime := currentTimeStr\<rparr>,
            [oledC_DrawRectangle 48 80 115 88 OLEDC_COLOR_BLACK,
             oledC_DrawString 48 80 1 1 currentTimeStr OLEDC_COLOR_WHITE])
         else (s, []))"

definition renderMainMenu :: "WatchState \<Rightarrow> WatchState \<times> effect list" where
  "renderMainMenu s =
     (let items = concat (map (\<lambda>i.
            (let yPosition = 20 + i * 12 in
             oledC_DrawString 10 yPosition 1 1 (MENU_OPTIONS ! i) OLEDC_COLOR_WHITE #
             (if i = unat (currentMenuSelection s)
              then [oledC_DrawString 4 yPosition 1 1 ''>'' OLEDC_COLOR_WHITE] else [])))
            [0..<MENU_ITEM_COUNT]);
          (s1, timeDrawn) = updateMenuTimeDisplay s;
          ampm = (if use12HourFormat s1 then
                    [oledC_DrawString 0 80 1 1
                       (if hours (systemClock s1) \<ge> 12 then ''PM'' else ''AM'')
                       OLEDC_COLOR_WHITE]
                  else [])
      in (s1, oledC_clearScreen # items @ timeDrawn @ ampm))"

section \<open>TimeBase: the Timer1 interrupt handler\<close>

text \<open>
  \<open>_T1Interrupt\<close>. \<open>button1Pressed\<close> is the reading \<open>PORTAbits.RA11 == 0\<close>. The result is
  the new state with the display and delay calls the handler made, in order; \<open>None\<close>
  when \<open>incrementSystemTime\<close> reads outside the table.
\<close>

definition T1Interrupt :: "bool \<Rightarrow> WatchState \<Rightarrow> (WatchState \<times> effect list) option" where
  "T1Interrupt button1Pressed s =
     (case incrementSystemTime (systemClock s) of
        None \<Rightarrow> None
      | Some t \<Rightarrow>
          (let s1 = s\<lparr>systemClock := t, elapsedSeconds := elapsedSeconds s + 1,
                      showFootIcon := \<not> showFootIcon s\<rparr>;
               (s2, tr) =
                 (if \<not> isGraphDisplayed s1 then
                    (if button1Pressed then
                       (let s1a = s1\<lparr>T1_button1HoldCount := T1_button1HoldCount s1 + 1\<rparr> in
                        if T1_button1HoldCount s1a \<ge> 2 \<and> \<not> inMainMenu s1a then
                          (let (s1b, drawn) =
                                 renderMainMenu (s1a\<lparr>inMainMenu := True,
                                                     currentMenuSelection := 0\<rparr>)
                           in (s1b\<lparr>T1_button1HoldCount := 0\<rparr>, drawn @ [DELAY_milliseconds 10]))
                        else (s1a, [DELAY_milliseconds 10]))
                     else (s1\<lparr>T1_button1HoldCount := 0\<rparr>, []))
                  else (s1, []));
               s3 =
                 (if \<not> inMainMenu s2 then
                    (let i = (unat (currentSecondIndex s2) + 1) mod HISTORY_SIZE;
                         stepsThisSecond = totalSteps s2 - previousStepCount s2;
                         rawPace = real (unat stepsThisSecond) * 60;
                         s2a = s2\<lparr>currentSecondIndex := of_nat i,
                                   stepsPerSecond := (stepsPerSecond s2)[i := 0],
                                   previousStepCount := totalSteps s2\<rparr>
                     in if stepsThisSecond = 0 then
                          (let s2b = s2a\<lparr>inactivityCount := inactivityCount s2a + 1\<rparr> in
                           s2b\<lparr>currentStepPace :=
                                  (if inactivityCount s2b \<ge> 3 then 0 else rawPace)\<rparr>)
                        else s2a\<lparr>inactivityCount := 0, currentStepPace := rawPace\<rparr>)
                  else s2)
           in Some (s3, tr)))"

section \<open>Foreground: inputs and outcomes\<close>

text \<open>
  What one poll of the foreground reads: the two button lines (\<open>PORTAbits.RA11 == 0\<close>,
  \<open>PORTAbits.RA12 == 0\<close>), whether a wait for release started at this poll comes to an
  end, and the sensor sample taken at this poll: \<open>Inl message\<close> when a bus read exhausts
  its retries (\<open>haltWithError message\<close>), otherwise \<open>Inr\<close> of the float handed to the
  comparison (\<open>dynamicForce\<close> in \<open>detectStep\<close>, \<open>magnitude\<close> in \<open>checkTiltToSave\<close>).
  Draw calls, delays and LED writes of the foreground are left out. Of the variables that
  the rendering functions write, the state has \<open>previousTime\<close> (\<open>renderMainMenu\<close>,
  \<open>updateMenuTimeDisplay\<close>) and \<open>redrawClock\<close> (cleared by \<open>renderClockDisplay\<close>); the
  other display caches are not part of it. The timer interrupt is not interleaved.
\<close>

record poll =
  button1Pressed :: bool
  button2Pressed :: bool
  released :: bool
  sample :: "string + real"

text \<open>
  \<open>Done\<close>: the function returned. \<open>Stopped\<close>: it did not, with the reason and the globals
  at that point; \<open>AwaitingInput\<close> means that the recorded polls ended inside a polling loop.
\<close>

datatype stop = HaltedWithError string | AwaitingRelease | AwaitingInput | OutOfBounds

datatype outcome = Done WatchState | Stopped stop WatchState

definition outcomeState :: "outcome \<Rightarrow> WatchState" where
  "outcomeState r = (case r of Done s \<Rightarrow> s | Stopped why s \<Rightarrow> s)"

definition isDone :: "outcome \<Rightarrow> bool" where
  "isDone r = (case r of Done s \<Rightarrow> True | Stopped why s \<Rightarrow> False)"

definition andThen :: "outcome \<Rightarrow> (WatchState \<Rightarrow> outcome) \<Rightarrow> outcome" where
  "andThen r f = (case r of Done s \<Rightarrow> f s | Stopped why s \<Rightarrow> Stopped why s)"

text \<open>\<^verbatim>\<open>while (<button pressed>) DELAY_milliseconds(10);\<close>\<close>

definition awaitRelease :: "poll \<Rightarrow> WatchState \<Rightarrow> outcome" where
  "awaitRelease p s = (if released p then Done s else Stopped AwaitingRelease s)"

definition redrawMainMenu :: "WatchState \<Rightarrow> WatchState" where
  "redrawMainMenu s = fst (updateMenuTimeDisplay (fst (renderMainMenu s)))"

section \<open>Set-time page\<close>

definition processTimeSetInput :: "poll \<Rightarrow> WatchState \<Rightarrow> outcome" where
  "processTimeSetInput p s =
     (if button1Pressed p \<and> button2Pressed p then
        andThen (awaitRelease p s) (\<lambda>s.
          Done (s\<lparr>timeFieldSelected := (if timeFieldSelected s = 0 then 1 else 0)\<rparr>))
      else if button1Pressed p then
        andThen (awaitRelease p s) (\<lambda>s.
          let t = timeToSet s in
          if timeFieldSelected s = 0 then
            Done (s\<lparr>timeToSet :=
              t\<lparr>TimeSetting.hours := of_nat ((unat (TimeSetting.hours t) + 1) mod 24)\<rparr>\<rparr>)
          else
            Done (s\<lparr>timeToSet :=
              t\<lparr>TimeSetting.minutes := of_nat ((unat (TimeSetting.minutes t) + 1) mod 60)\<rparr>\<rparr>))
      else if button2Pressed p then
        andThen (awaitRelease p s) (\<lambda>s.
          let t = timeToSet s in
          if timeFieldSelected s = 0 then
            Done (s\<lparr>timeToSet := t\<lparr>TimeSetting.hours :=
              (if TimeSetting.hours t = 0 then 23 else TimeSetting.hours t - 1)\<rparr>\<rparr>)
          else
            Done (s\<lparr>timeToSet := t\<lparr>TimeSetting.minutes :=
              (if TimeSetting.minutes t = 0 then 59 else TimeSetting.minutes t - 1)\<rparr>\<rparr>))
      else Done s)"

definition TILT_THRESHOLD :: real where
  "TILT_THRESHOLD = 600"

definition checkTiltToSave :: "real \<Rightarrow> bool" where
  "checkTiltToSave magnitude \<longleftrightarrow> magnitude < TILT_THRESHOLD"

text \<open>A poll at which the sample is read and \<open>checkTiltToSave\<close> answers true.\<close>

definition readsLevel :: "poll \<Rightarrow> bool" where
  "readsLevel q = (case sample q of Inl message \<Rightarrow> False | Inr magnitude \<Rightarrow> checkTiltToSave magnitude)"

text \<open>The loop \<^verbatim>\<open>while (inTimeSetMenu) { ... }\<close> of \<open>manageTimeSetPage\<close>, one poll per turn.\<close>

fun timeSetLoop :: "poll list \<Rightarrow> WatchState \<Rightarrow> outcome" where
  "timeSetLoop [] s = (if inTimeSetMenu s then Stopped AwaitingInput s else Done s)"
| "timeSetLoop (p # ps) s =
     (if inTimeSetMenu s then
        andThen (processTimeSetInput p s) (\<lambda>s1.
          case sample p of
            Inl message \<Rightarrow> Stopped (HaltedWithError message) s1
          | Inr magnitude \<Rightarrow>
              if checkTiltToSave magnitude then
                (let s2 = s1\<lparr>tiltCount := tiltCount s1 + 1\<rparr> in
                 if tiltCount s2 \<ge> 1 then
                   Done (s2\<lparr>systemClock := (systemClock s2)
                              \<lparr>hours := TimeSetting.hours (timeToSet s2),
                               minutes := TimeSetting.minutes (timeToSet s2),
                               seconds := 0\<rparr>,
                            inTimeSetMenu := False\<rparr>)
                 else timeSetLoop ps s2)
              else timeSetLoop ps (s1\<lparr>tiltCount := 0\<rparr>))
      else Done s)"

text \<open>
  \<open>entryReleased\<close>: whether the wait \<^verbatim>\<open>while (RA11 == 0 || RA12 == 0)\<close> before the loop
  comes to an end.
\<close>

definition manageTimeSetPage :: "bool \<Rightarrow> poll list \<Rightarrow> WatchState \<Rightarrow> outcome" where
  "manageTimeSetPage entryReleased polls s =
     (let s1 = s\<lparr>inTimeSetMenu := True,
                 timeToSet := \<lparr>TimeSetting.hours = hours (systemClock s),
                                minutes = minutes (systemClock s)\<rparr>,
                 timeFieldSelected := 0\<rparr>
      in if entryReleased then timeSetLoop polls (s1\<lparr>tiltCount := 0\<rparr>)
         else Stopped AwaitingRelease s1)"

section \<open>Set-date page\<close>

definition processDateSetInput :: "poll \<Rightarrow> WatchState \<Rightarrow> outcome" where
  "processDateSetInput p s =
     (if button1Pressed p \<and> button2Pressed p then
        andThen (awaitRelease p s) (\<lambda>s.
          Done (s\<lparr>dateFieldSelected := (if dateFieldSelected s = 0 then 1 else 0)\<rparr>))
      else if button1Pressed p then
        andThen (awaitRelease p s) (\<lambda>s.
          let d = dateToSet s in
          if dateFieldSelected s = 0 then
            (case DAYS_PER_MONTH_at (DateSetting.month d) of
               None \<Rightarrow> Stopped OutOfBounds s
             | Some maxDay \<Rightarrow>
                 Done (s\<lparr>dateToSet := d\<lparr>DateSetting.day := DateSetting.day d mod maxDay + 1\<rparr>\<rparr>))
          else
            (let d1 = d\<lparr>DateSetting.month := DateSetting.month d mod 12 + 1\<rparr> in
             case DAYS_PER_MONTH_at (DateSetting.month d1) of
               None \<Rightarrow> Stopped OutOfBounds (s\<lparr>dateToSet := d1\<rparr>)
             | Some maxDay \<Rightarrow>
                 Done (s\<lparr>dateToSet :=
                   (if DateSetting.day d1 > maxDay then d1\<lparr>DateSetting.day := maxDay\<rparr> else d1)\<rparr>)))
      else if button2Pressed p then
        andThen (awaitRelease p s) (\<lambda>s.
          let d = dateToSet s in
          if dateFieldSelected s = 0 then
            (if DateSetting.day d = 1 then
               (case DAYS_PER_MONTH_at (DateSetting.month d) of
                  None \<Rightarrow> Stopped OutOfBounds s
                | Some maxDay \<Rightarrow> Done (s\<lparr>dateToSet := d\<lparr>DateSetting.day := maxDay\<rparr>\<rparr>))
             else Done (s\<lparr>dateToSet := d\<lparr>DateSetting.day := DateSetting.day d - 1\<rparr>\<rparr>))
          else
            (let d1 = (if DateSetting.month d = 1 then d\<lparr>DateSetting.month := 12\<rparr>
                       else d\<lparr>DateSetting.month := DateSetting.month d - 1\<rparr>) in
             case DAYS_PER_MONTH_at (DateSetting.month d1) of
               None \<Rightarrow> Stopped OutOfBounds (s\<lparr>dateToSet := d1\<rparr>)
             | Some maxDay \<Rightarrow>
                 Done (s\<lparr>dateToSet :=
                   (if DateSetting.day d1 > maxDay then d1\<lparr>DateSetting.day := maxDay\<rparr> else d1)\<rparr>)))
      else Done s)"

fun dateSetLoop :: "poll list \<Rightarrow> WatchState \<Rightarrow> outcome" where
  "dateSetLoop [] s = (if inTimeSetMenu s then Stopped AwaitingInput s else Done s)"
| "dateSetLoop (p # ps) s =
     (if inTimeSetMenu s then
        andThen (processDateSetInput p s) (\<lambda>s1.
          case sample p of
            Inl message \<Rightarrow> Stopped (HaltedWithError message) s1
          | Inr magnitude \<Rightarrow>
              if checkTiltToSave magnitude then
                (let s2 = s1\<lparr>tiltCount := tiltCount s1 + 1\<rparr> in
                 if tiltCount s2 \<ge> 1 then
                   Done (s2\<lparr>systemClock := (systemClock s2)
                              \<lparr>day := DateSetting.day (dateToSet s2),
                               month := DateSetting.month (dateToSet s2)\<rparr>,
                            inTimeSetMenu := False\<rparr>)
                 else dateSetLoop ps s2)
              else dateSetLoop ps (s1\<lparr>tiltCount := 0\<rparr>))
      else Done s)"

definition manageDateSetPage :: "bool \<Rightarrow> poll list \<Rightarrow> WatchState \<Rightarrow> outcome" where
  "manageDateSetPage entryReleased polls s =
     (let s1 = s\<lparr>inTimeSetMenu := True,
                 dateToSet := \<lparr>DateSetting.day = day (systemClock s),
                                month = month (systemClock s)\<rparr>,
                 dateFieldSelected := 0\<rparr>
      in if entryReleased then dateSetLoop polls (s1\<lparr>tiltCount := 0\<rparr>)
         else Stopped AwaitingRelease s1)"

section \<open>Time-format page and graph page\<close>

fun timeFormatLoop :: "poll list \<Rightarrow> WatchState \<Rightarrow> outcome" where
  "timeFormatLoop [] s = (if inTimeFormatMenu s then Stopped AwaitingInput s else Done s)"
| "timeFormatLoop (p # ps) s =
     (if inTimeFormatMenu s then
        (if button2Pressed p then
           andThen (awaitRelease p s) (\<lambda>s.
             timeFormatLoop ps
               (s\<lparr>timeFormatOption := of_nat ((unat (timeFormatOption s) + 1) mod 2)\<rparr>))
         else if button1Pressed p then
           andThen (awaitRelease p s) (\<lambda>s.
             Done (s\<lparr>use12HourFormat := (timeFormatOption s = 0), inTimeFormatMenu := False\<rparr>))
         else timeFormatLoop ps s)
      else Done s)"

definition manageTimeFormatSelection :: "poll list \<Rightarrow> WatchState \<Rightarrow> outcome" where
  "manageTimeFormatSelection polls s =
     timeFormatLoop polls
       (s\<lparr>inTimeFormatMenu := True,
          timeFormatOption := (if use12HourFormat s then 0 else 1)\<rparr>)"

fun graphLoop :: "poll list \<Rightarrow> WatchState \<Rightarrow> outcome" where
  "graphLoop [] s = Stopped AwaitingInput s"
| "graphLoop (p # ps) s =
     (if button2Pressed p then
        andThen (awaitRelease p s) (\<lambda>s. Done (redrawMainMenu (s\<lparr>inMainMenu := True\<rparr>)))
      else if button1Pressed p then
        (let s1 = s\<lparr>graph_button1HoldCount := graph_button1HoldCount s + 1\<rparr> in
         if graph_button1HoldCount s1 \<ge> 20 then
           Done (s1\<lparr>inMainMenu := False, redrawClock := True\<rparr>)
         else graphLoop ps s1)
      else graphLoop ps (s\<lparr>graph_button1HoldCount := 0\<rparr>))"

definition displayStepGraph :: "poll list \<Rightarrow> WatchState \<Rightarrow> outcome" where
  "displayStepGraph polls s =
     andThen (graphLoop polls (s\<lparr>isGraphDisplayed := True\<rparr>))
       (\<lambda>s. Done (s\<lparr>isGraphDisplayed := False\<rparr>))"

section \<open>MenuStateMachine: dispatch and the foreground loop\<close>

definition executeMenuSelection :: "bool \<Rightarrow> poll list \<Rightarrow> WatchState \<Rightarrow> outcome" where
  "executeMenuSelection entryReleased polls s =
     (if currentMenuSelection s = 0 then displayStepGraph polls s
      else if currentMenuSelection s = 1 then
        andThen (manageTimeFormatSelection polls s) (\<lambda>s. Done (redrawMainMenu s))
      else if currentMenuSelection s = 2 then
        andThen (manageTimeSetPage entryReleased polls s) (\<lambda>s. Done (redrawMainMenu s))
      else if currentMenuSelection s = 3 then
        andThen (manageDateSetPage entryReleased polls s) (\<lambda>s. Done (redrawMainMenu s))
      else if currentMenuSelection s = 4 then
        Done (s\<lparr>inMainMenu := False, redrawClock := True\<rparr>)
      else Done s)"

text \<open>
  The branch \<^verbatim>\<open>if (inMainMenu) { ... }\<close> of the loop of \<open>main\<close>. \<open>p\<close> is the poll of this
  turn; \<open>entryReleased\<close> and \<open>polls\<close> are read by the page that a confirmed selection opens.
\<close>

definition mainMenuTurn :: "poll \<Rightarrow> bool \<Rightarrow> poll list \<Rightarrow> WatchState \<Rightarrow> outcome" where
  "mainMenuTurn p entryReleased polls s =
     andThen
       (if justEnteredMenu s then
          Done (fst (renderMainMenu (s\<lparr>justEnteredMenu := False, button1WasPressed := False,
                                        button2WasPressed := False\<rparr>)))
        else
          andThen
            (if button1Pressed p \<and> button2Pressed p then
               (let s1 = s\<lparr>comboPressCount := comboPressCount s + 1\<rparr> in
                if comboPressCount s1 \<ge> 3 then
                  andThen (andThen (awaitRelease p s1) (executeMenuSelection entryReleased polls))
                    (\<lambda>s. Done (s\<lparr>comboPressCount := 0, button1WasPressed := True,
                                 button2WasPressed := True\<rparr>))
                else Done s1)
             else
               andThen
                 (let s1 = s\<lparr>comboPressCount := 0\<rparr> in
                  if button1Pressed p \<and> \<not> button1WasPressed s1 then
                    andThen (awaitRelease p s1) (\<lambda>s.
                      Done ((fst (renderMainMenu
                        (s\<lparr>currentMenuSelection :=
                            (if currentMenuSelection s = 0 then of_nat (MENU_ITEM_COUNT - 1)
                             else currentMenuSelection s - 1)\<rparr>)))
                        \<lparr>button1WasPressed := True\<rparr>))
                  else if \<not> button1Pressed p then Done (s1\<lparr>button1WasPressed := False\<rparr>)
                  else Done s1)
                 (\<lambda>s1.
                  if button2Pressed p \<and> \<not> button2WasPressed s1 then
                    andThen (awaitRelease p s1) (\<lambda>s.
                      Done ((fst (renderMainMenu
                        (s\<lparr>currentMenuSelection :=
                            (if currentMenuSelection s = of_nat (MENU_ITEM_COUNT - 1) then 0
                             else currentMenuSelection s + 1)\<rparr>)))
                        \<lparr>button2WasPressed := True\<rparr>))
                  else if \<not> button2Pressed p then Done (s1\<lparr>button2WasPressed := False\<rparr>)
                  else Done s1))
            (\<lambda>s. Done (fst (updateMenuTimeDisplay s))))
       (\<lambda>s. Done (s\<lparr>wasInMenu := True\<rparr>))"

text \<open>The \<^verbatim>\<open>else\<close> branch: step sampling, pace smoothing and the history ring.\<close>

definition clockTurn :: "poll \<Rightarrow> WatchState \<Rightarrow> outcome" where
  "clockTurn p s =
     (let s0 = (if wasInMenu s then s\<lparr>wasInMenu := False\<rparr> else s) in
      case sample p of
        Inl message \<Rightarrow> Stopped (HaltedWithError message) s0
      | Inr dynamicForce \<Rightarrow>
          (case detectStep dynamicForce s0 of
             None \<Rightarrow> Stopped OutOfBounds s0
           | Some s1 \<Rightarrow>
               (let s2 = s1\<lparr>displayedStepPace :=
                           updateDisplayedStepPace (displayedStepPace s1) (currentStepPace s1)\<rparr>
                in Done (s2\<lparr>stepRateHistory := (stepRateHistory s2)
                          [unat (elapsedSeconds s2) mod GRAPH_WIDTH :=
                             of_nat (nat \<lfloor>displayedStepPace s2\<rfloor>)],
                        redrawClock := False\<rparr>))))"

text \<open>One turn of \<^verbatim>\<open>while (1) { ... }\<close> in \<open>main\<close>.\<close>

definition mainLoopTurn :: "poll \<Rightarrow> bool \<Rightarrow> poll list \<Rightarrow> WatchState \<Rightarrow> outcome" where
  "mainLoopTurn p entryReleased polls s =
     (if inMainMenu s then mainMenuTurn p entryReleased polls s else clockTurn p s)"

section \<open>Notions used by the properties\<close>

text \<open>The staged date is a date of the table: month 1--12, day from 1 to the month's count.\<close>

definition DateSetting_inv :: "DateSetting \<Rightarrow> bool" where
  "DateSetting_inv d \<longleftrightarrow>
     1 \<le> DateSetting.month d \<and> DateSetting.month d \<le> 12 \<and> 1 \<le> DateSetting.day d \<and>
     DateSetting.day d \<le> DAYS_PER_MONTH ! (unat (DateSetting.month d) - 1)"

text \<open>The step data that menu mode leaves alone.\<close>

definition stepDataKept :: "WatchState \<Rightarrow> WatchState \<Rightarrow> bool" where
  "stepDataKept s s' \<longleftrightarrow>
     totalSteps s' = totalSteps s \<and> stepsPerSecond s' = stepsPerSecond s \<and>
     currentSecondIndex s' = currentSecondIndex s \<and> currentStepPace s' = currentStepPace s \<and>
     wasStepThresholdExceeded s' = wasStepThresholdExceeded s"

text \<open>What the pages opened from the main menu leave alone as well.\<close>

definition pageKept :: "WatchState \<Rightarrow> WatchState \<Rightarrow> bool" where
  "pageKept s s' \<longleftrightarrow> stepDataKept s s' \<and> currentMenuSelection s' = currentMenuSelection s"

text \<open>What a turn of the main menu leaves alone: the step data, and the range of the index.\<close>

definition menuKept :: "WatchState \<Rightarrow> WatchState \<Rightarrow> bool" where
  "menuKept s s' \<longleftrightarrow>
     stepDataKept s s' \<and> (currentMenuSelection s \<le> 4 \<longrightarrow> currentMenuSelection s' \<le> 4)"

text \<open>
  A poll at which the input function of a page returns: the wait for release that a pressed
  button starts comes to an end.
\<close>

definition inputReturns :: "poll \<Rightarrow> bool" where
  "inputReturns q \<longleftrightarrow> (button1Pressed q \<or> button2Pressed q \<longrightarrow> released q)"

text \<open>A poll at which the sample is read and \<open>checkTiltToSave\<close> answers false.\<close>

definition readsTilted :: "poll \<Rightarrow> bool" where
  "readsTilted q = (case sample q of Inl message \<Rightarrow> False | Inr magnitude \<Rightarrow> \<not> checkTiltToSave magnitude)"

text \<open>The number of consecutive polls reading level at the end of the polls taken so far.\<close>

definition levelStreak :: "poll list \<Rightarrow> nat" where
  "levelStreak ps = length (takeWhile readsLevel (rev ps))"

text \<open>The globals after the calls of \<open>processTimeSetInput\<close>, of \<open>processDateSetInput\<close>, at the given polls.\<close>

fun timeEdits :: "poll list \<Rightarrow> WatchState \<Rightarrow> WatchState" where
  "timeEdits [] s = s"
| "timeEdits (p # ps) s = timeEdits ps (outcomeState (processTimeSetInput p s))"

fun dateEdits :: "poll list \<Rightarrow> WatchState \<Rightarrow> WatchState" where
  "dateEdits [] s = s"
| "dateEdits (p # ps) s = dateEdits ps (outcomeState (processDateSetInput p s))"

section \<open>State at reset\<close>

text \<open>The initialisers of the globals and statics.\<close>

definition initialState :: WatchState where
  "initialState =
     \<lparr>stepRateHistory = replicate GRAPH_WIDTH 0,
      currentStepPace = 0,
      isGraphDisplayed = False,
      timeToSet = \<lparr>TimeSetting.hours = 4, minutes = 0\<rparr>,
      timeFieldSelected = 0,
      dateToSet = \<lparr>DateSetting.day = 24, month = 1\<rparr>,
      dateFieldSelected = 0,
      wasStepThresholdExceeded = False,
      isMovementActive = False,
      totalSteps = 0,
      stepsPerSecond = replicate HISTORY_SIZE 0,
      currentSecondIndex = 0,
      displayedStepPace = 0,
      elapsedSeconds = 0,
      use12HourFormat = True,
      inTimeFormatMenu = False,
      inTimeSetMenu = False,
      timeFormatOption = 0,
      showFootIcon = False,
      redrawClock = False,
      justEnteredMenu = False,
      inMainMenu = False,
      systemClock = \<lparr>hours = 4, minutes = 0, seconds = 0, day = 24, month = 1\<rparr>,
      currentMenuSelection = 0,
      T1_button1HoldCount = 0,
      previousStepCount = 0,
      inactivityCount = 0,
      graph_button1HoldCount = 0,
      previousTime = [],
      wasInMenu = False,
      button1WasPressed = False,
      button2WasPressed = False,
      comboPressCount = 0,
      tiltCount = 0\<rparr>"


section \<open>Properties of the sensor read\<close>

lemma retry_exhausted:
  assumes "\<forall>k<3. b (calls s + k) r = None"
  shows "readRegisterRetry b r m 0 s =
     Halted (s\<lparr>calls := calls s + 3, trace := trace s @
        [DELAY_milliseconds 10, DELAY_milliseconds 10,
         oledC_DrawString 0 20 1 1 m OLEDC_COLOR_DARKRED,
         printf (''Error: '' @ m @ [CHR 0x0A])]\<rparr>)"
proof -
  have "b (calls s) r = None" "b (calls s + 1) r = None" "b (calls s + 2) r = None"
    using assms[rule_format, of 0] assms[rule_format, of 1] assms[rule_format, of 2] by simp_all
  then show ?thesis
    by (simp add: readRegisterRetry.simps retries_def haltWithError_def)
qed

lemma retry_success:
  assumes "k < 3" "\<forall>i<k. b (calls s + i) r = None" "b (calls s + k) r = Some byte"
  shows "readRegisterRetry b r m 0 s =
     Ok byte (s\<lparr>calls := calls s + k + 1,
               trace := trace s @ replicate k (DELAY_milliseconds 10)\<rparr>)"
proof -
  consider "k = 0" | "k = 1" | "k = 2" using assms(1) by linarith
  then show ?thesis
  proof cases
    case 1 then show ?thesis using assms by (simp add: readRegisterRetry.simps retries_def)
  next
    case 2 
    then have "b (calls s) r = None" using assms(2)[rule_format, of 0] by simp
    then show ?thesis using assms 2 by (simp add: readRegisterRetry.simps retries_def)
  next
    case 3
    then have "b (calls s) r = None" "b (calls s + 1) r = None" 
      using assms(2)[rule_format, of 0] assms(2)[rule_format, of 1] by simp_all
    then show ?thesis using assms 3 by (simp add: readRegisterRetry.simps retries_def numeral_2_eq_2)
  qed
qed

text \<open>
  Claim C8. Each register read of \<open>readAccelerometerAxis\<close> makes at most three attempts
  with a 10 ms delay after each failed attempt but the last. When the three attempts at the
  low byte fail, or the low byte arrives and the three attempts at the high byte fail, the
  function draws the diagnostic message, prints it and halts for ever. When an attempt
  succeeds before that for both bytes, it returns the 16-bit value assembled from the two
  bytes, having drawn and printed nothing. These three cases are exhaustive, so no failed
  read goes unnoticed.
\<close>

theorem readAccelerometerAxis_retry_then_halt:
  "((\<forall>k<3. b (calls s + k) r = None) \<longrightarrow>
      readAccelerometerAxis b r s =
        Halted (s\<lparr>calls := calls s + 3, trace := trace s @
          [DELAY_milliseconds 10, DELAY_milliseconds 10,
           oledC_DrawString 0 20 1 1 ''I2C Read Error (LSB)'' OLEDC_COLOR_DARKRED,
           printf (''Error: I2C Read Error (LSB)'' @ [CHR 0x0A])]\<rparr>))
   \<and> (k < 3 \<and> (\<forall>i<k. b (calls s + i) r = None) \<and> b (calls s + k) r = Some lowByte
        \<and> (\<forall>j<3. b (calls s + k + 1 + j) (r + 1) = None) \<longrightarrow>
      readAccelerometerAxis b r s =
        Halted (s\<lparr>calls := calls s + k + 4, trace := trace s @
          replicate k (DELAY_milliseconds 10) @
          [DELAY_milliseconds 10, DELAY_milliseconds 10,
           oledC_DrawString 0 20 1 1 ''I2C Read Error (MSB)'' OLEDC_COLOR_DARKRED,
           printf (''Error: I2C Read Error (MSB)'' @ [CHR 0x0A])]\<rparr>))
   \<and> (k < 3 \<and> (\<forall>i<k. b (calls s + i) r = None) \<and> b (calls s + k) r = Some lowByte
        \<and> j < 3 \<and> (\<forall>i<j. b (calls s + k + 1 + i) (r + 1) = None)
        \<and> b (calls s + k + 1 + j) (r + 1) = Some highByte \<longrightarrow>
      readAccelerometerAxis b r s =
        Ok (push_bit 8 (ucast highByte) OR ucast lowByte)
           (s\<lparr>calls := calls s + k + j + 2,
              trace := trace s @ replicate (k + j) (DELAY_milliseconds 10)\<rparr>))"
proof (intro conjI impI)
  assume "\<forall>k<3. b (calls s + k) r = None"
  then show "readAccelerometerAxis b r s =
        Halted (s\<lparr>calls := calls s + 3, trace := trace s @
          [DELAY_milliseconds 10, DELAY_milliseconds 10,
           oledC_DrawString 0 20 1 1 ''I2C Read Error (LSB)'' OLEDC_COLOR_DARKRED,
           printf (''Error: I2C Read Error (LSB)'' @ [CHR 0x0A])]\<rparr>)"
    by (simp add: readAccelerometerAxis_def retry_exhausted)
next
  let ?s1 = "s\<lparr>calls := calls s + k + 1,
               trace := trace s @ replicate k (DELAY_milliseconds 10)\<rparr>"
  assume a: "k < 3 \<and> (\<forall>i<k. b (calls s + i) r = None) \<and> b (calls s + k) r = Some lowByte
        \<and> (\<forall>j<3. b (calls s + k + 1 + j) (r + 1) = None)"
  then have lo: "readRegisterRetry b r ''I2C Read Error (LSB)'' 0 s = Ok lowByte ?s1"
    by (intro retry_success) auto
  from a have "\<forall>j<3. b (calls ?s1 + j) (r + 1) = None" by simp
  then have "readRegisterRetry b (r + 1) ''I2C Read Error (MSB)'' 0 ?s1 =
     Halted (?s1\<lparr>calls := calls ?s1 + 3, trace := trace ?s1 @
        [DELAY_milliseconds 10, DELAY_milliseconds 10,
         oledC_DrawString 0 20 1 1 ''I2C Read Error (MSB)'' OLEDC_COLOR_DARKRED,
         printf (''Error: '' @ ''I2C Read Error (MSB)'' @ [CHR 0x0A])]\<rparr>)"
    by (rule retry_exhausted)
  with lo show "readAccelerometerAxis b r s =
        Halted (s\<lparr>calls := calls s + k + 4, trace := trace s @
          replicate k (DELAY_milliseconds 10) @
          [DELAY_milliseconds 10, DELAY_milliseconds 10,
           oledC_DrawString 0 20 1 1 ''I2C Read Error (MSB)'' OLEDC_COLOR_DARKRED,
           printf (''Error: I2C Read Error (MSB)'' @ [CHR 0x0A])]\<rparr>)"
    by (simp add: readAccelerometerAxis_def)
next
  let ?s1 = "s\<lparr>calls := calls s + k + 1,
               trace := trace s @ replicate k (DELAY_milliseconds 10)\<rparr>"
  assume a: "k < 3 \<and> (\<forall>i<k. b (calls s + i) r = None) \<and> b (calls s + k) r = Some lowByte
        \<and> j < 3 \<and> (\<forall>i<j. b (calls s + k + 1 + i) (r + 1) = None)
        \<and> b (calls s + k + 1 + j) (r + 1) = Some highByte"
  then have lo: "readRegisterRetry b r ''I2C Read Error (LSB)'' 0 s = Ok lowByte ?s1"
    by (intro retry_success) auto
  from a have "j < 3" "\<forall>i<j. b (calls ?s1 + i) (r + 1) = None"
     "b (calls ?s1 + j) (r + 1) = Some highByte" by simp_all
  then have "readRegisterRetry b (r + 1) ''I2C Read Error (MSB)'' 0 ?s1 =
     Ok highByte (?s1\<lparr>calls := calls ?s1 + j + 1,
               trace := trace ?s1 @ replicate j (DELAY_milliseconds 10)\<rparr>)"
    by (rule retry_success)
  with lo show "readAccelerometerAxis b r s =
        Ok (push_bit 8 (ucast highByte) OR ucast lowByte)
           (s\<lparr>calls := calls s + k + j + 2,
              trace := trace s @ replicate (k + j) (DELAY_milliseconds 10)\<rparr>)"
    by (simp add: readAccelerometerAxis_def replicate_add)
qed

theorem readAccelerometerAxis_retry_then_halt_witness:
  "readAccelerometerAxis (\<lambda>n r. None) 0x32 \<lparr>calls = 0, trace = []\<rparr> =
     Halted \<lparr>calls = 3, trace =
       [DELAY_milliseconds 10, DELAY_milliseconds 10,
        oledC_DrawString 0 20 1 1 ''I2C Read Error (LSB)'' OLEDC_COLOR_DARKRED,
        printf (''Error: I2C Read Error (LSB)'' @ [CHR 0x0A])]\<rparr>
   \<and> readAccelerometerAxis (\<lambda>n r. if n = 0 then None else if r = 0x32 then Some 0x34 else None)
       0x32 \<lparr>calls = 0, trace = []\<rparr> =
     Halted \<lparr>calls = 5, trace =
       [DELAY_milliseconds 10, DELAY_milliseconds 10, DELAY_milliseconds 10,
        oledC_DrawString 0 20 1 1 ''I2C Read Error (MSB)'' OLEDC_COLOR_DARKRED,
        printf (''Error: I2C Read Error (MSB)'' @ [CHR 0x0A])]\<rparr>
   \<and> readAccelerometerAxis (\<lambda>n r. if n = 0 then None else if r = 0x32 then Some 0x34 else Some 0x12)
       0x32 \<lparr>calls = 0, trace = []\<rparr> =
     Ok 0x1234 \<lparr>calls = 3, trace = [DELAY_milliseconds 10]\<rparr>"
  using
    readAccelerometerAxis_retry_then_halt
      [where b = "\<lambda>n r. None" and s = "\<lparr>calls = 0, trace = []\<rparr>" and r = "0x32"]
    readAccelerometerAxis_retry_then_halt
      [where b = "\<lambda>n r. if n = 0 then None else if r = 0x32 then Some 0x34 else None"
         and s = "\<lparr>calls = 0, trace = []\<rparr>" and r = "0x32" and k = 1 and lowByte = "0x34"]
    readAccelerometerAxis_retry_then_halt
      [where b = "\<lambda>n r. if n = 0 then None else if r = 0x32 then Some 0x34 else Some 0x12"
         and s = "\<lparr>calls = 0, trace = []\<rparr>" and r = "0x32" and k = 1 and lowByte = "0x34"
         and j = 0 and highByte = "0x12"]
  by simp

section \<open>Properties of ClockModel\<close>

lemmas w2n = word_less_nat_alt word_le_nat_alt unat_word_ariths word_unat_eq_iff

lemma month_cases:
  fixes m :: "8 word"
  assumes "1 \<le> m" "m \<le> 12"
  shows "m = 1 \<or> m = 2 \<or> m = 3 \<or> m = 4 \<or> m = 5 \<or> m = 6 \<or> m = 7 \<or> m = 8 \<or> m = 9
     \<or> m = 10 \<or> m = 11 \<or> m = 12"
proof -
  have "1 \<le> unat m" "unat m \<le> 12" using assms by (simp_all add: w2n)
  then have "unat m = 1 \<or> unat m = 2 \<or> unat m = 3 \<or> unat m = 4 \<or> unat m = 5 \<or> unat m = 6
     \<or> unat m = 7 \<or> unat m = 8 \<or> unat m = 9 \<or> unat m = 10 \<or> unat m = 11 \<or> unat m = 12"
    by presburger
  then show ?thesis by (simp add: word_unat_eq_iff)
qed

lemma advanceDate_step:
  assumes "ClockTime_inv t"
  shows "\<exists>t'. advanceDate t = Some t' \<and> ClockTime_inv t' \<and> hours t' = hours t
     \<and> minutes t' = minutes t \<and> seconds t' = seconds t
     \<and> dayOfYear (unat (month t')) (unat (day t')) =
         (dayOfYear (unat (month t)) (unat (day t)) + 1) mod 365"
proof -
  have m: "1 \<le> month t" "month t \<le> 12" using assms by (simp_all add: ClockTime_inv_def)
  from month_cases[OF m] show ?thesis
    using assms
    apply (elim disjE)
    apply (simp_all add: ClockTime_inv_def advanceDate_def DAYS_PER_MONTH_at_def DAYS_PER_MONTH_def
          Let_def dayOfYear_def w2n)
    apply arith
    done
qed

lemma dayOfYear_bound:
  assumes "ClockTime_inv t"
  shows "dayOfYear (unat (month t)) (unat (day t)) < 365"
proof -
  have m: "1 \<le> month t" "month t \<le> 12" using assms by (simp_all add: ClockTime_inv_def)
  from month_cases[OF m] show ?thesis
    using assms
    by (elim disjE; simp add: ClockTime_inv_def DAYS_PER_MONTH_def dayOfYear_def w2n; arith)
qed

lemma day_wrap: "((D + 1) mod 365) * 86400 = (D * 86400 + 86399 + 1) mod (365 * 86400)"
  for D :: nat
proof -
  have "D * 86400 + 86399 + 1 = (D + 1) * 86400" by simp
  then show ?thesis by (simp only: mult_mod_left)
qed

lemma incrementSystemTime_step:
  assumes "ClockTime_inv t"
  shows "\<exists>t'. incrementSystemTime t = Some t' \<and> ClockTime_inv t'
     \<and> secondsOfYear t' = (secondsOfYear t + 1) mod secondsPerYear"
proof (cases "seconds t = 59 \<and> minutes t = 59 \<and> hours t = 23")
  case True
  let ?u = "t\<lparr>seconds := 0, minutes := 0, hours := 0\<rparr>"
  have u: "ClockTime_inv ?u" using assms by (simp add: ClockTime_inv_def)
  have i: "incrementSystemTime t = advanceDate ?u"
    using True by (simp add: incrementSystemTime_def Let_def)
  from advanceDate_step[OF u] obtain t' where t': "advanceDate ?u = Some t'" "ClockTime_inv t'"
    "hours t' = 0" "minutes t' = 0" "seconds t' = 0"
    "dayOfYear (unat (month t')) (unat (day t')) =
         (dayOfYear (unat (month t)) (unat (day t)) + 1) mod 365"
    by auto
  have "secondsOfYear t = dayOfYear (unat (month t)) (unat (day t)) * 86400 + 86399"
    using True by (simp add: secondsOfYear_def)
  moreover have "secondsOfYear t' = ((dayOfYear (unat (month t)) (unat (day t)) + 1) mod 365) * 86400"
    using t' by (simp add: secondsOfYear_def)
  ultimately have "secondsOfYear t' = (secondsOfYear t + 1) mod secondsPerYear"
    using day_wrap[of "dayOfYear (unat (month t)) (unat (day t))"]
    by (simp add: secondsPerYear_def)
  with i t' show ?thesis by simp
next
  case False
  let ?D = "dayOfYear (unat (month t)) (unat (day t))"
  have D: "?D < 365" using assms by (rule dayOfYear_bound)
  have r: "unat (hours t) < 24" "unat (minutes t) < 60" "unat (seconds t) < 60"
    using assms by (simp_all add: ClockTime_inv_def w2n)
  consider (s) "seconds t \<noteq> 59"
    | (m) "seconds t = 59" "minutes t \<noteq> 59"
    | (h) "seconds t = 59" "minutes t = 59" "hours t \<noteq> 23"
    using False by blast
  then show ?thesis
  proof cases
    case s
    then have i: "incrementSystemTime t = Some (t\<lparr>seconds := seconds t + 1\<rparr>)"
      using assms by (simp add: incrementSystemTime_def Let_def ClockTime_inv_def w2n)
    have u: "unat (seconds t + 1) = unat (seconds t) + 1" "unat (seconds t) < 59"
      using s r by (simp_all add: w2n)
    have "secondsOfYear t + 1 < secondsPerYear"
      using D r u by (simp add: secondsOfYear_def secondsPerYear_def)
    then show ?thesis using i assms u
      by (simp add: ClockTime_inv_def secondsOfYear_def w2n)
  next
    case m
    then have i: "incrementSystemTime t = Some (t\<lparr>seconds := 0, minutes := minutes t + 1\<rparr>)"
      using assms by (simp add: incrementSystemTime_def Let_def ClockTime_inv_def w2n)
    have u: "unat (minutes t + 1) = unat (minutes t) + 1" "unat (minutes t) < 59"
      using m r by (simp_all add: w2n)
    have "secondsOfYear t + 1 < secondsPerYear"
      using D r u m by (simp add: secondsOfYear_def secondsPerYear_def)
    then show ?thesis using i assms u m
      by (simp add: ClockTime_inv_def secondsOfYear_def w2n)
  next
    case h
    then have i: "incrementSystemTime t =
        Some (t\<lparr>seconds := 0, minutes := 0, hours := hours t + 1\<rparr>)"
      using assms by (simp add: incrementSystemTime_def Let_def ClockTime_inv_def w2n)
    have u: "unat (hours t + 1) = unat (hours t) + 1" "unat (hours t) < 23"
      using h r by (simp_all add: w2n)
    have "secondsOfYear t + 1 < secondsPerYear"
      using D r u h by (simp add: secondsOfYear_def secondsPerYear_def)
    then show ?thesis using i assms u h
      by (simp add: ClockTime_inv_def secondsOfYear_def w2n)
  qed
qed


lemma dateOfDay_dayOfYear:
  assumes "ClockTime_inv t"
  shows "dateOfDay (dayOfYear (unat (month t)) (unat (day t))) (map unat DAYS_PER_MONTH) 1 =
     (unat (month t), unat (day t))"
proof -
  have m: "1 \<le> month t" "month t \<le> 12" using assms by (simp_all add: ClockTime_inv_def)
  from month_cases[OF m] show ?thesis
    using assms
    by (elim disjE; simp add: ClockTime_inv_def DAYS_PER_MONTH_def dayOfYear_def w2n; arith)
qed

lemma split_seconds:
  fixes D h m s :: nat
  assumes "h < 24" "m < 60" "s < 60"
  defines "n \<equiv> ((D * 24 + h) * 60 + m) * 60 + s"
  shows "n mod 60 = s" "n div 60 mod 60 = m" "n div 3600 mod 24 = h" "n div 86400 = D"
proof -
  define p where "p = D * 24 + h"
  define q where "q = p * 60 + m"
  have n: "n = q * 60 + s" by (simp only: n_def q_def p_def)
  show "n mod 60 = s" using assms(3) by (simp add: n)
  have a: "n div 60 = q" using assms(3) by (simp add: n)
  then show "n div 60 mod 60 = m" using assms(2) by (simp add: q_def)
  have "n div 3600 = n div 60 div 60" by (simp add: div_mult2_eq)
  then have b: "n div 3600 = p" using assms(2) by (simp add: a q_def)
  then show "n div 3600 mod 24 = h" using assms(1) by (simp add: p_def)
  have "n div 86400 = n div 3600 div 24" by (simp add: div_mult2_eq)
  then show "n div 86400 = D" using assms(1) by (simp add: b p_def)
qed

lemma secondsOfYear_bound:
  assumes "ClockTime_inv t"
  shows "secondsOfYear t < secondsPerYear"
proof -
  have "unat (hours t) < 24" "unat (minutes t) < 60" "unat (seconds t) < 60"
    using assms by (simp_all add: ClockTime_inv_def w2n)
  then show ?thesis
    using dayOfYear_bound[OF assms] by (simp add: secondsOfYear_def secondsPerYear_def)
qed

lemma clockOfSeconds_secondsOfYear:
  assumes "ClockTime_inv t"
  shows "clockOfSeconds (secondsOfYear t) = t"
proof -
  have r: "unat (hours t) < 24" "unat (minutes t) < 60" "unat (seconds t) < 60"
    using assms by (simp_all add: ClockTime_inv_def w2n)
  note sp = split_seconds[OF r, of "dayOfYear (unat (month t)) (unat (day t))"]
  show ?thesis
    unfolding clockOfSeconds_def secondsOfYear_def sp
    using dateOfDay_dayOfYear[OF assms] by simp
qed

lemma advanceTimes_inv:
  "ClockTime_inv t \<Longrightarrow> \<exists>t'. advanceTimes n t = Some t' \<and> ClockTime_inv t'
      \<and> secondsOfYear t' = (secondsOfYear t + n) mod secondsPerYear"
proof (induction n arbitrary: t)
  case 0
  then show ?case using secondsOfYear_bound[of t] by simp
next
  case (Suc n)
  from incrementSystemTime_step[OF Suc.prems] obtain u where
    u: "incrementSystemTime t = Some u" "ClockTime_inv u"
       "secondsOfYear u = (secondsOfYear t + 1) mod secondsPerYear" by blast
  from Suc.IH[OF u(2)] obtain t' where
    t': "advanceTimes n u = Some t'" "ClockTime_inv t'"
       "secondsOfYear t' = (secondsOfYear u + n) mod secondsPerYear" by blast
  have "secondsOfYear t' = (secondsOfYear t + Suc n) mod secondsPerYear"
    using t'(3) u(3) by (simp add: mod_add_left_eq add.assoc)
  with u t' show ?case by simp
qed


lemma advanceTimes_advanceSeconds:
  assumes "ClockTime_inv t"
  shows "advanceTimes n t = Some (advanceSeconds n t)" "ClockTime_inv (advanceSeconds n t)"
proof -
  from advanceTimes_inv[OF assms, of n] obtain t' where
    t': "advanceTimes n t = Some t'" "ClockTime_inv t'"
       "secondsOfYear t' = (secondsOfYear t + n) mod secondsPerYear" by blast
  have "advanceSeconds n t = clockOfSeconds (secondsOfYear t')"
    by (simp add: advanceSeconds_def t'(3))
  then have e: "advanceSeconds n t = t'" by (simp add: clockOfSeconds_secondsOfYear[OF t'(2)])
  show "advanceTimes n t = Some (advanceSeconds n t)" by (simp add: e t'(1))
  show "ClockTime_inv (advanceSeconds n t)" by (simp add: e t'(2))
qed

lemma rollover_at_midnight:
  assumes "ClockTime_inv t" "hours t = 23" "minutes t = 59" "seconds t = 59"
  shows "incrementSystemTime t =
     Some \<lparr>hours = 0, minutes = 0, seconds = 0,
       day = (if day t = DAYS_PER_MONTH ! (unat (month t) - 1) then 1 else day t + 1),
       month = (if day t = DAYS_PER_MONTH ! (unat (month t) - 1)
                then (if month t = 12 then 1 else month t + 1) else month t)\<rparr>"
proof -
  have m: "1 \<le> month t" "month t \<le> 12" using assms by (simp_all add: ClockTime_inv_def)
  have d: "unat (day t) \<le> 31"
    using month_cases[OF m] assms(1)
    by (elim disjE; simp add: ClockTime_inv_def DAYS_PER_MONTH_def w2n)
  have i: "incrementSystemTime t = advanceDate (t\<lparr>seconds := 0, minutes := 0, hours := 0\<rparr>)"
    using assms by (simp add: incrementSystemTime_def Let_def)
  from month_cases[OF m] show ?thesis
    unfolding i using assms(1) d
    by (elim disjE; cases t;
        simp add: ClockTime_inv_def advanceDate_def DAYS_PER_MONTH_at_def DAYS_PER_MONTH_def
          Let_def w2n; arith)
qed

text \<open>
  Claim C2. From a clock value within the data model's ranges and invariant, \<open>n\<close>
  one-second advances return the value that modelled time reaches \<open>n\<close> seconds later, and
  that value satisfies the invariant again (so the day never exceeds the month's count after
  any advance). At 23:59:59 the date moves by the table: the last day of a month is followed
  by day 1 of the next month, December by January, and any other day by the next day; so
  31 January is followed by 1 February and 28 February always by 1 March.
\<close>

theorem incrementSystemTime_modelled_time:
  "(ClockTime_inv t \<longrightarrow>
      advanceTimes n t = Some (advanceSeconds n t) \<and> ClockTime_inv (advanceSeconds n t))
   \<and> (ClockTime_inv t \<longrightarrow> (\<exists>t'. incrementSystemTime t = Some t' \<and> ClockTime_inv t'))
   \<and> (ClockTime_inv t \<and> hours t = 23 \<and> minutes t = 59 \<and> seconds t = 59 \<longrightarrow>
      incrementSystemTime t =
        Some \<lparr>hours = 0, minutes = 0, seconds = 0,
          day = (if day t = DAYS_PER_MONTH ! (unat (month t) - 1) then 1 else day t + 1),
          month = (if day t = DAYS_PER_MONTH ! (unat (month t) - 1)
                   then (if month t = 12 then 1 else month t + 1) else month t)\<rparr>)
   \<and> incrementSystemTime \<lparr>hours = 23, minutes = 59, seconds = 59, day = 31, month = 1\<rparr> =
        Some \<lparr>hours = 0, minutes = 0, seconds = 0, day = 1, month = 2\<rparr>
   \<and> incrementSystemTime \<lparr>hours = 23, minutes = 59, seconds = 59, day = 28, month = 2\<rparr> =
        Some \<lparr>hours = 0, minutes = 0, seconds = 0, day = 1, month = 3\<rparr>"
proof (intro conjI impI)
  assume "ClockTime_inv t"
  then show "advanceTimes n t = Some (advanceSeconds n t)" "ClockTime_inv (advanceSeconds n t)"
    by (rule advanceTimes_advanceSeconds)+
next
  assume "ClockTime_inv t"
  then show "\<exists>t'. incrementSystemTime t = Some t' \<and> ClockTime_inv t'"
    using incrementSystemTime_step by blast
next
  assume "ClockTime_inv t \<and> hours t = 23 \<and> minutes t = 59 \<and> seconds t = 59"
  then show "incrementSystemTime t =
        Some \<lparr>hours = 0, minutes = 0, seconds = 0,
          day = (if day t = DAYS_PER_MONTH ! (unat (month t) - 1) then 1 else day t + 1),
          month = (if day t = DAYS_PER_MONTH ! (unat (month t) - 1)
                   then (if month t = 12 then 1 else month t + 1) else month t)\<rparr>"
    by (intro rollover_at_midnight) simp_all
next
  show "incrementSystemTime \<lparr>hours = 23, minutes = 59, seconds = 59, day = 31, month = 1\<rparr> =
        Some \<lparr>hours = 0, minutes = 0, seconds = 0, day = 1, month = 2\<rparr>"
    by (simp add: incrementSystemTime_def advanceDate_def DAYS_PER_MONTH_at_def
        DAYS_PER_MONTH_def Let_def)
next
  show "incrementSystemTime \<lparr>hours = 23, minutes = 59, seconds = 59, day = 28, month = 2\<rparr> =
        Some \<lparr>hours = 0, minutes = 0, seconds = 0, day = 1, month = 3\<rparr>"
    by (simp add: incrementSystemTime_def advanceDate_def DAYS_PER_MONTH_at_def
        DAYS_PER_MONTH_def Let_def)
qed

theorem incrementSystemTime_modelled_time_witness:
  "ClockTime_inv \<lparr>hours = 23, minutes = 59, seconds = 0, day = 31, month = 12\<rparr>
   \<and> advanceTimes 90 \<lparr>hours = 23, minutes = 59, seconds = 0, day = 31, month = 12\<rparr> =
       Some \<lparr>hours = 0, minutes = 0, seconds = 30, day = 1, month = 1\<rparr>
   \<and> ClockTime_inv \<lparr>hours = 23, minutes = 59, seconds = 59, day = 30, month = 4\<rparr>
   \<and> incrementSystemTime \<lparr>hours = 23, minutes = 59, seconds = 59, day = 30, month = 4\<rparr> =
       Some \<lparr>hours = 0, minutes = 0, seconds = 0, day = 1, month = 5\<rparr>"
  using incrementSystemTime_modelled_time
      [of "\<lparr>hours = 23, minutes = 59, seconds = 0, day = 31, month = 12\<rparr>" 90]
    incrementSystemTime_modelled_time
      [of "\<lparr>hours = 23, minutes = 59, seconds = 59, day = 30, month = 4\<rparr>" 0]
  by (simp add: ClockTime_inv_def DAYS_PER_MONTH_def advanceSeconds_def secondsOfYear_def
      dayOfYear_def secondsPerYear_def clockOfSeconds_def)

section \<open>Properties of StepDetector\<close>

lemma maximalRuns_True_pos: "0 < maximalRuns (True # bs)"
proof (cases "remdups_adj (True # bs)")
  case Nil
  then show ?thesis by simp
next
  case (Cons y ys)
  then have "y = True" using hd_remdups_adj[of "True # bs"] by simp
  then show ?thesis by (simp add: maximalRuns_def Cons)
qed

lemma runsStarted_Nil: "runsStarted prev [] = 0"
  by (simp add: runsStarted_def maximalRuns_def)

lemma runsStarted_Cons:
  "runsStarted prev (b # bs) = (if b \<and> \<not> prev then 1 else 0) + runsStarted b bs"
  using maximalRuns_True_pos[of bs]
  by (cases prev; cases b) (simp_all add: runsStarted_def maximalRuns_def)

lemma detectStep_Some:
  assumes "unat (currentSecondIndex s) < HISTORY_SIZE"
  shows "detectStep f s =
    Some (if exceedsThreshold f \<and> \<not> wasStepThresholdExceeded s then
        s\<lparr>isMovementActive := True, totalSteps := totalSteps s + 1,
          stepsPerSecond := (stepsPerSecond s)[unat (currentSecondIndex s) :=
             stepsPerSecond s ! unat (currentSecondIndex s) + 1],
          wasStepThresholdExceeded := True\<rparr>
      else s\<lparr>isMovementActive := exceedsThreshold f,
             wasStepThresholdExceeded := exceedsThreshold f\<rparr>)"
  using assms by (simp add: detectStep_def exceedsThreshold_def Let_def)

lemma detectSteps_count:
  assumes "unat (currentSecondIndex s) < HISTORY_SIZE" "length (stepsPerSecond s) = HISTORY_SIZE"
  shows "\<exists>s'. detectSteps fs s = Some s'
     \<and> totalSteps s' = totalSteps s
          + of_nat (runsStarted (wasStepThresholdExceeded s) (map exceedsThreshold fs))
     \<and> stepsPerSecond s' = (stepsPerSecond s)[unat (currentSecondIndex s) :=
          stepsPerSecond s ! unat (currentSecondIndex s)
            + of_nat (runsStarted (wasStepThresholdExceeded s) (map exceedsThreshold fs))]
     \<and> currentSecondIndex s' = currentSecondIndex s
     \<and> wasStepThresholdExceeded s' = last (wasStepThresholdExceeded s # map exceedsThreshold fs)"
  using assms
proof (induction fs arbitrary: s)
  case Nil
  then show ?case by (simp add: runsStarted_Nil)
next
  case (Cons f fs)
  let ?i = "unat (currentSecondIndex s)"
  obtain s1 where s1: "detectStep f s = Some s1"
    and s1': "s1 = (if exceedsThreshold f \<and> \<not> wasStepThresholdExceeded s then
        s\<lparr>isMovementActive := True, totalSteps := totalSteps s + 1,
          stepsPerSecond := (stepsPerSecond s)[?i := stepsPerSecond s ! ?i + 1],
          wasStepThresholdExceeded := True\<rparr>
      else s\<lparr>isMovementActive := exceedsThreshold f,
             wasStepThresholdExceeded := exceedsThreshold f\<rparr>)"
    using detectStep_Some[OF Cons.prems(1)] by blast
  have p: "unat (currentSecondIndex s1) < HISTORY_SIZE" "length (stepsPerSecond s1) = HISTORY_SIZE"
    using Cons.prems by (simp_all add: s1')
  have w: "wasStepThresholdExceeded s1 = exceedsThreshold f" by (auto simp: s1')
  have c: "currentSecondIndex s1 = currentSecondIndex s" by (simp add: s1')
  have i: "?i < length (stepsPerSecond s)" using Cons.prems by simp
  from Cons.IH[OF p] obtain s' where s': "detectSteps fs s1 = Some s'"
     "totalSteps s' = totalSteps s1 + of_nat (runsStarted (exceedsThreshold f) (map exceedsThreshold fs))"
     "stepsPerSecond s' = (stepsPerSecond s1)[?i :=
          stepsPerSecond s1 ! ?i + of_nat (runsStarted (exceedsThreshold f) (map exceedsThreshold fs))]"
     "currentSecondIndex s' = currentSecondIndex s"
     "wasStepThresholdExceeded s' = last (exceedsThreshold f # map exceedsThreshold fs)"
    unfolding w c by blast
  show ?case
    using s1 s' i by (auto simp: runsStarted_Cons s1' add.assoc)
qed


lemma detectStep_flag:
  "detectStep f s = Some s1 \<Longrightarrow> wasStepThresholdExceeded s1 = exceedsThreshold f"
  by (auto simp: detectStep_def exceedsThreshold_def Let_def split: if_splits)

lemma runsStarted_below:
  "\<forall>f\<in>set fs. f < STEP_THRESHOLD \<Longrightarrow> runsStarted prev (map exceedsThreshold fs) = 0"
  by (induction fs arbitrary: prev) (simp_all add: runsStarted_Nil runsStarted_Cons exceedsThreshold_def)

lemma runsStarted_False: "runsStarted False bs = maximalRuns bs"
  by (cases bs) (simp_all add: runsStarted_def maximalRuns_def)

lemma detectSteps_working_acc_count:
  "stepCount (detectSteps_working_acc fs g) =
     stepCount g + of_nat (runsStarted (wasAboveThreshold g) (map (\<lambda>f. f > 200) fs))
   \<and> wasAboveThreshold (detectSteps_working_acc fs g) =
       last (wasAboveThreshold g # map (\<lambda>f. f > 200) fs)"
proof (induction fs arbitrary: g)
  case Nil
  then show ?case by (simp add: runsStarted_Nil)
next
  case (Cons f fs)
  show ?case
    using Cons.IH[of "detectStep_working_acc f g"]
    by (auto simp: runsStarted_Cons detectStep_working_acc_def Let_def add.assoc)
qed

text \<open>
  Claim C1, amended. Over consecutive calls of \<open>detectStep\<close>, \<open>totalSteps\<close> and the current
  bucket grow (modulo their width) by the number of maximal runs of samples strictly above
  \<open>STEP_THRESHOLD\<close> that start at one of these samples, a run that continues the previous
  call's flag not counting again; from a cleared flag that is the number of maximal runs of
  the sequence. After every call the flag says whether the sample exceeded the threshold.
  Samples that stay strictly below the threshold start no run. The detector of
  working_acc.c counts the same way with threshold 200.
\<close>

theorem detectStep_counts_rising_edges:
  "(unat (currentSecondIndex s) < HISTORY_SIZE \<and> length (stepsPerSecond s) = HISTORY_SIZE \<longrightarrow>
     (\<exists>s'. detectSteps fs s = Some s'
        \<and> totalSteps s' = totalSteps s
             + of_nat (runsStarted (wasStepThresholdExceeded s) (map exceedsThreshold fs))
        \<and> stepsPerSecond s' = (stepsPerSecond s)[unat (currentSecondIndex s) :=
             stepsPerSecond s ! unat (currentSecondIndex s)
               + of_nat (runsStarted (wasStepThresholdExceeded s) (map exceedsThreshold fs))]
        \<and> wasStepThresholdExceeded s' =
             last (wasStepThresholdExceeded s # map exceedsThreshold fs)))
   \<and> (detectStep f s = Some s1 \<longrightarrow> wasStepThresholdExceeded s1 = exceedsThreshold f)
   \<and> runsStarted False bs = maximalRuns bs
   \<and> ((\<forall>f\<in>set fs. f < STEP_THRESHOLD) \<longrightarrow>
        runsStarted (wasStepThresholdExceeded s) (map exceedsThreshold fs) = 0)
   \<and> stepCount (detectSteps_working_acc fs g) =
        stepCount g + of_nat (runsStarted (wasAboveThreshold g) (map (\<lambda>f. f > 200) fs))
   \<and> wasAboveThreshold (detectSteps_working_acc fs g) =
        last (wasAboveThreshold g # map (\<lambda>f. f > 200) fs)"
  using detectSteps_count[of s fs] detectStep_flag[of f s s1] runsStarted_False[of bs]
    runsStarted_below[of fs "wasStepThresholdExceeded s"] detectSteps_working_acc_count[of fs g]
  by blast


text \<open>
  The claim as worded counts runs of samples at or above the threshold. A single sample at
  exactly 900 is such a run, and the detector does not count it.
\<close>

theorem detectStep_at_threshold_counterexample:
  "maximalRuns (map atOrAboveThreshold [900]) = 1
   \<and> map_option totalSteps (detectSteps [900] initialState) = Some (totalSteps initialState)
   \<and> map_option stepsPerSecond (detectSteps [900] initialState) =
       Some (stepsPerSecond initialState)"
  by (simp add: maximalRuns_def atOrAboveThreshold_def STEP_THRESHOLD_def detectStep_def
      initialState_def Let_def)


theorem detectStep_counts_rising_edges_witness:
  "unat (currentSecondIndex initialState) < HISTORY_SIZE
   \<and> length (stepsPerSecond initialState) = HISTORY_SIZE
   \<and> map_option totalSteps (detectSteps [1000, 1000, 100, 950, 900] initialState) = Some 2
   \<and> map_option wasStepThresholdExceeded (detectStep 950 initialState) = Some True
   \<and> 100 < STEP_THRESHOLD \<and> 899 < STEP_THRESHOLD
   \<and> map_option totalSteps (detectSteps [100, 899] initialState) = Some 0"
  using detectStep_counts_rising_edges
      [of initialState "[1000, 1000, 100, 950, 900]" 950 "the (detectStep 950 initialState)"]
    detectStep_counts_rising_edges [of initialState "[100, 899]"]
  by (auto simp: initialState_def HISTORY_SIZE_def STEP_THRESHOLD_def exceedsThreshold_def
      runsStarted_def maximalRuns_def detectStep_def Let_def)

section \<open>Properties of PaceEstimator\<close>

lemma find_upto:
  assumes "a \<le> e" "e \<le> b" "P e"
  obtains r where "find P [a..b] = Some r" "a \<le> r" "r \<le> e" "P r"
proof -
  have "e \<in> set [a..b]" using assms by (simp only: set_upto atLeastAtMost_iff)
  then have "find P [a..b] \<noteq> None" using assms(3) by (auto simp only: find_None_iff)
  then obtain r where r: "find P [a..b] = Some r" by auto
  then obtain i where i: "i < length [a..b]" "P ([a..b] ! i)" "r = [a..b] ! i"
      "\<forall>j<i. \<not> P ([a..b] ! j)"
    unfolding find_Some_iff by blast
  have li: "int i < b - a + 1" using i(1) by simp
  have ri: "r = a + int i" using i(3) nth_upto[of a i b] li by linarith
  have "r \<le> e"
  proof (rule ccontr)
    assume "\<not> r \<le> e"
    then have lt: "nat (e - a) < i" using assms(1) ri by linarith
    have "[a..b] ! nat (e - a) = a + int (nat (e - a))"
      using assms(1,2) by (intro nth_upto) linarith
    then have "[a..b] ! nat (e - a) = e" using assms(1) by simp
    then show False using i(4) lt assms(3) by metis
  qed
  moreover have "a \<le> r" using ri by simp
  moreover have "P r" using i(2,3) by simp
  ultimately show thesis using that r by blast
qed

lemma float32_exponent_bounds:
  assumes "- 126 \<le> e" "e \<le> 127" "\<bar>x\<bar> < 2 powi (e + 1)"
  shows "- 126 \<le> float32_exponent x \<and> float32_exponent x \<le> e
         \<and> \<bar>x\<bar> < 2 powi (float32_exponent x + 1)"
proof -
  obtain r where r: "find (\<lambda>e. \<bar>x\<bar> < 2 powi (e + 1)) [- 126..127] = Some r"
      "- 126 \<le> r" "r \<le> e" "\<bar>x\<bar> < 2 powi (r + 1)"
    using find_upto[where P = "\<lambda>e. \<bar>x\<bar> < 2 powi (e + 1)", OF assms] by blast
  have "float32_exponent x = r" unfolding float32_exponent_def by (simp only: r option.case)
  then show ?thesis using r by simp
qed

lemma float32_exponent_eq:
  assumes "- 126 \<le> e" "e \<le> 127" "\<bar>x\<bar> < 2 powi (e + 1)" "e = - 126 \<or> 2 powi e \<le> \<bar>x\<bar>"
  shows "float32_exponent x = e"
proof (rule ccontr)
  let ?a = "float32_exponent x"
  note b = float32_exponent_bounds[OF assms(1-3)]
  assume n: "?a \<noteq> e"
  then have lt: "?a < e" using b by simp
  then have e: "2 powi e \<le> \<bar>x\<bar>" using assms(4) b by auto
  have "\<bar>x\<bar> < 2 powi (?a + 1)" using b by simp
  also have "(2::real) powi (?a + 1) \<le> 2 powi e"
    using lt by (intro power_int_increasing) simp_all
  finally show False using e by simp
qed

lemma roundTiesToEven_of_int [simp]: "roundTiesToEven (of_int n) = n"
  by (simp add: roundTiesToEven_def)

lemma float32_round_of_int:
  assumes "\<bar>n\<bar> < 2 ^ 24"
  shows "float32_round (of_int n) = of_int n"
proof -
  let ?x = "of_int n :: real"
  let ?e = "float32_exponent ?x"
  have "\<bar>?x\<bar> < 2 ^ 24"
  proof -
    have "\<bar>?x\<bar> = of_int \<bar>n\<bar>" by simp
    also have "\<dots> < of_int (2 ^ 24)" using assms by (simp only: of_int_less_iff)
    finally show ?thesis by simp
  qed
  then have "\<bar>?x\<bar> < 2 powi (23 + 1)" by simp
  from float32_exponent_bounds[OF _ _ this] have e: "- 126 \<le> ?e" "?e \<le> 23" by simp_all
  define k where "k = nat (23 - ?e)"
  have ulp: "(2::real) powi (?e - 23) = 1 / 2 ^ k"
  proof -
    have "?e - 23 = - int k" using e by (simp add: k_def)
    then show ?thesis by (simp add: power_int_minus_divide)
  qed
  have q: "?x / (1 / 2 ^ k) = of_int (n * 2 ^ k)" by simp
  show ?thesis
    unfolding float32_round_def Let_def ulp q roundTiesToEven_of_int by simp
qed

lemma float32_round_whole:
  assumes "d \<in> \<int>" "\<bar>d\<bar> < 2 ^ 24"
  shows "float32_round d = d"
proof -
  obtain n where n: "d = of_int n" using assms(1) by (auto elim: Ints_cases)
  have "real_of_int \<bar>n\<bar> < real_of_int (2 ^ 24)" using assms(2) n by simp
  then have "\<bar>n\<bar> < 2 ^ 24" by (simp only: of_int_less_iff)
  then show ?thesis using float32_round_of_int n by simp
qed

lemma float32_round_in_binade:
  assumes "- 126 \<le> e" "e \<le> 127" "\<bar>x\<bar> < 2 powi (e + 1)" "e = - 126 \<or> 2 powi e \<le> \<bar>x\<bar>"
  shows "float32_round x = of_int (roundTiesToEven (x / 2 powi (e - 23))) * 2 powi (e - 23)"
  by (simp add: float32_round_def Let_def float32_exponent_eq[OF assms])


lemma float32_round_102 [simp]: "float32_round 102 = 102"
  using float32_round_whole[of 102] by simp

lemma pace_range:
  "0 \<le> updateDisplayedStepPace d r \<and> updateDisplayedStepPace d r \<le> 100
   \<and> (updateDisplayedStepPace d r = 0 \<or> 1/2 \<le> updateDisplayedStepPace d r)"
  by (simp add: updateDisplayedStepPace_def Let_def)

lemma pace_whole:
  assumes "d \<in> \<int>" "0 \<le> d" "d \<le> 100"
  shows "updateDisplayedStepPace d r =
           (let d1 = (if d < r then (if d + 2 > r then r else d + 2)
                      else if d > r then (if d - 2 < r then r else d - 2)
                      else d)
            in if d1 < 1/2 then 0 else if d1 > 100 then 100 else d1)"
proof -
  have "float32_round (d + 2) = d + 2"
    using assms by (intro float32_round_whole) (simp_all add: abs_if)
  moreover have "float32_round (d - 2) = d - 2"
    using assms by (intro float32_round_whole) (simp_all add: abs_if)
  ultimately show ?thesis by (simp add: updateDisplayedStepPace_def Let_def)
qed

lemma whole_below_half:
  assumes "(d::real) \<in> \<int>" "0 \<le> d" "d < 1/2"
  shows "d = 0"
proof -
  obtain k where k: "d = of_int k" using assms(1) by (auto elim: Ints_cases)
  have "0 \<le> k" "k < 1" using assms(2,3) k by linarith+
  then show ?thesis using k by simp
qed

lemma whole_below_5_halves:
  assumes "(d::real) \<in> \<int>" "d < 5/2"
  shows "d \<le> 2"
proof -
  obtain k where k: "d = of_int k" using assms(1) by (auto elim: Ints_cases)
  have "k < 3" using assms(2) k by linarith
  then show ?thesis using k by simp
qed

lemma pace_step_size:
  assumes "d \<in> \<int>" "0 \<le> d" "d \<le> 100"
  shows "\<bar>updateDisplayedStepPace d r - d\<bar> \<le> 2"
proof -
  have a: "d < 1/2 \<Longrightarrow> d = 0" using whole_below_half assms by blast
  have b: "d < 5/2 \<Longrightarrow> d \<le> 2" using whole_below_5_halves assms by blast
  show ?thesis
    unfolding pace_whole[OF assms] Let_def using assms(2,3) a b
    by (auto simp: abs_if split: if_splits)
qed

lemma pace_no_overshoot:
  assumes "d \<in> \<int>" "0 \<le> d" "d \<le> 100" "r \<le> 0 \<or> 1/2 \<le> r"
  shows "(d \<le> r \<longrightarrow> d \<le> updateDisplayedStepPace d r \<and> updateDisplayedStepPace d r \<le> r)
     \<and> (r \<le> d \<longrightarrow> r \<le> updateDisplayedStepPace d r \<and> updateDisplayedStepPace d r \<le> d)"
proof -
  have a: "d < 1/2 \<Longrightarrow> d = 0" using whole_below_half assms by blast
  show ?thesis
    unfolding pace_whole[OF assms(1-3)] Let_def using assms(2-4) a
    by (auto split: if_splits)
qed

lemma pace_potential:
  assumes "d \<in> \<int>" "0 \<le> d" "d \<le> 100"
  shows "\<bar>updateDisplayedStepPace d r - clampedTarget r\<bar> \<le> max 0 (\<bar>d - clampedTarget r\<bar> - 2)"
  unfolding pace_whole[OF assms] using assms(2,3)
  by (simp add: clampedTarget_def Let_def)

lemma pace_keeps_whole:
  assumes "d \<in> \<int>" "0 \<le> d" "d \<le> 100"
  shows "updateDisplayedStepPace d r \<in> \<int> \<or> updateDisplayedStepPace d r = r"
  unfolding pace_whole[OF assms] using assms(1)
  by (simp add: Let_def)

lemma pace_at_target:
  "1/2 \<le> r \<Longrightarrow> r \<le> 100 \<Longrightarrow> updateDisplayedStepPace r r = r"
  by (simp add: updateDisplayedStepPace_def)

lemma paceAfter_at_target:
  "1/2 \<le> r \<Longrightarrow> r \<le> 100 \<Longrightarrow> paceAfter n r r = r"
  by (induction n) (simp_all add: pace_at_target)

lemma paceAfter_potential:
  "d \<in> \<int> \<Longrightarrow> 0 \<le> d \<Longrightarrow> d \<le> 100 \<Longrightarrow>
   \<bar>paceAfter n d r - clampedTarget r\<bar> \<le> max 0 (\<bar>d - clampedTarget r\<bar> - 2 * real n)"
proof (induction n arbitrary: d)
  case 0
  then show ?case by simp
next
  case (Suc n)
  let ?u = "updateDisplayedStepPace d r"
  note rng = pace_range[of d r]
  consider (whole) "?u \<in> \<int>" | (target) "?u = r"
    using pace_keeps_whole[OF Suc.prems, of r] by blast
  then show ?case
  proof cases
    case whole
    have "\<bar>paceAfter (Suc n) d r - clampedTarget r\<bar>
        \<le> max 0 (\<bar>?u - clampedTarget r\<bar> - 2 * real n)"
      using Suc.IH[of ?u] whole rng by simp
    also have "\<dots> \<le> max 0 (max 0 (\<bar>d - clampedTarget r\<bar> - 2) - 2 * real n)"
      using pace_potential[OF Suc.prems, of r] by linarith
    also have "\<dots> \<le> max 0 (\<bar>d - clampedTarget r\<bar> - 2 * real (Suc n))"
      by simp
    finally show ?thesis .
  next
    case target
    then have r: "1/2 \<le> r \<or> r = 0" "r \<le> 100" using rng by auto
    show ?thesis
    proof (cases "r = 0")
      case True
      have "\<bar>paceAfter (Suc n) d r - clampedTarget r\<bar>
          \<le> max 0 (\<bar>?u - clampedTarget r\<bar> - 2 * real n)"
        using Suc.IH[of ?u] target True by simp
      also have "\<dots> \<le> max 0 (max 0 (\<bar>d - clampedTarget r\<bar> - 2) - 2 * real n)"
        using pace_potential[OF Suc.prems, of r] by linarith
      also have "\<dots> \<le> max 0 (\<bar>d - clampedTarget r\<bar> - 2 * real (Suc n))"
        by simp
      finally show ?thesis .
    next
      case False
      then have "paceAfter (Suc n) d r = r"
        using target r paceAfter_at_target[of r n] by simp
      moreover have "clampedTarget r = r" using False r by (simp add: clampedTarget_def)
      ultimately show ?thesis by simp
    qed
  qed
qed

lemma paceAfter_reaches:
  assumes "d \<in> \<int>" "0 \<le> d" "d \<le> 100" "nat \<lceil>\<bar>clampedTarget r - d\<bar> / 2\<rceil> \<le> n"
  shows "paceAfter n d r = clampedTarget r"
proof -
  have "\<bar>clampedTarget r - d\<bar> / 2 \<le> real_of_int \<lceil>\<bar>clampedTarget r - d\<bar> / 2\<rceil>" by linarith
  also have "\<dots> \<le> real n" using assms(4) by linarith
  finally have "\<bar>clampedTarget r - d\<bar> \<le> 2 * real n" by simp
  then have "\<bar>d - clampedTarget r\<bar> - 2 * real n \<le> 0" by (simp add: abs_minus_commute)
  then show ?thesis using paceAfter_potential[OF assms(1-3), of n r] by simp
qed

lemma clampedTarget_near:
  "(r = 0 \<or> (1/2 \<le> r \<and> r \<le> 100) \<longrightarrow> clampedTarget r = r)
   \<and> (\<bar>clampedTarget r - r\<bar> \<le> 2 \<longleftrightarrow> - 2 \<le> r \<and> r \<le> 102)"
  by (auto simp: clampedTarget_def abs_if)

lemma float32_round_seven_tenths:
  "float32_round (11744051 / 16777216 + 2) = 11324621 / 4194304"
  using float32_round_in_binade[of 1 "11744051 / 16777216 + 2"]
  by (simp add: roundTiesToEven_def Let_def)

lemma float32_round_quarter: "float32_round (1/4) = 1/4"
  using float32_round_in_binade[of "-2" "1/4"]
  by (simp add: roundTiesToEven_def Let_def)

lemma float32_round_minus_one: "float32_round (- 1) = - 1"
  using float32_round_whole[of "- 1"] by simp

text \<open>
  Claim C4, amended. With \<open>u\<close> the displayed pace after one foreground update from
  displayed pace \<open>d\<close> towards raw pace \<open>r\<close>: \<open>u\<close> is always within 0 and 100 and is either 0
  or at least 0.5. The program starts the displayed pace at 0 and its raw pace is 60 times
  a step count, so the displayed pace is a whole number; from a whole number \<open>d\<close> within 0
  and 100 the float additions are exact, \<open>u\<close> differs from \<open>d\<close> by at most 2, \<open>u\<close> is again
  a whole number or is the target itself, and the distance of \<open>u\<close> to \<open>c\<close>, the target after
  clamp and snap, is 2 less than that of \<open>d\<close>, or 0. When \<open>r\<close> is not strictly between 0
  and 0.5, \<open>u\<close> lies between \<open>d\<close> and \<open>r\<close> (no overshoot when rising, no undershoot when
  falling). After \<open>ceil (|c - d| / 2)\<close> updates or more the displayed pace equals \<open>c\<close>.
  \<open>c\<close> is the target itself when that is 0 or within 0.5 and 100, and \<open>c\<close> is within 2 of
  the target exactly when the target is within -2 and 102.
\<close>

theorem updateDisplayedStepPace_tracks_clamped_target:
  "0 \<le> updateDisplayedStepPace d r \<and> updateDisplayedStepPace d r \<le> 100
   \<and> (updateDisplayedStepPace d r = 0 \<or> 1/2 \<le> updateDisplayedStepPace d r)
   \<and> (d \<in> \<int> \<and> 0 \<le> d \<and> d \<le> 100 \<longrightarrow>
        \<bar>updateDisplayedStepPace d r - d\<bar> \<le> 2
        \<and> (updateDisplayedStepPace d r \<in> \<int> \<or> updateDisplayedStepPace d r = r)
        \<and> \<bar>updateDisplayedStepPace d r - clampedTarget r\<bar>
             \<le> max 0 (\<bar>d - clampedTarget r\<bar> - 2))
   \<and> (d \<in> \<int> \<and> 0 \<le> d \<and> d \<le> 100 \<and> (r \<le> 0 \<or> 1/2 \<le> r) \<longrightarrow>
        (d \<le> r \<longrightarrow> d \<le> updateDisplayedStepPace d r \<and> updateDisplayedStepPace d r \<le> r)
        \<and> (r \<le> d \<longrightarrow> r \<le> updateDisplayedStepPace d r \<and> updateDisplayedStepPace d r \<le> d))
   \<and> (d \<in> \<int> \<and> 0 \<le> d \<and> d \<le> 100 \<and> nat \<lceil>\<bar>clampedTarget r - d\<bar> / 2\<rceil> \<le> n \<longrightarrow>
        paceAfter n d r = clampedTarget r)
   \<and> (r = 0 \<or> (1/2 \<le> r \<and> r \<le> 100) \<longrightarrow> clampedTarget r = r)
   \<and> (\<bar>clampedTarget r - r\<bar> \<le> 2 \<longleftrightarrow> - 2 \<le> r \<and> r \<le> 102)"
  using pace_range[of d r] pace_step_size[of d r] pace_keeps_whole[of d r]
    pace_potential[of d r] pace_no_overshoot[of d r]
    paceAfter_reaches[of d r n] clampedTarget_near[of r]
  by blast

theorem updateDisplayedStepPace_tracks_clamped_target_witness:
  "(0::real) \<in> \<int> \<and> (0::real) \<le> 0 \<and> (0::real) \<le> 100 \<and> (1/2 \<le> (60::real))
   \<and> nat \<lceil>\<bar>clampedTarget 60 - 0\<bar> / 2\<rceil> \<le> 30
   \<and> paceAfter 30 0 60 = 60
   \<and> updateDisplayedStepPace 0 60 = 2
   \<and> \<bar>updateDisplayedStepPace 0 60 - clampedTarget 60\<bar> \<le> 58
   \<and> clampedTarget 60 = 60"
  using updateDisplayedStepPace_tracks_clamped_target [of 0 60 30]
    float32_round_whole [of 2]
  by (simp add: clampedTarget_def updateDisplayedStepPace_def)

text \<open>
  The claim as worded fails for a target above 102: with two steps in a second the raw pace
  is 120, the displayed pace stays at the clamp 100, and after \<open>ceil (|120 - 100| / 2) = 10\<close>
  updates it is still 20 away. It also fails for initial values that are not whole numbers:
  from the float nearest 0.7 (11744051 / 2^24) the float sum with 2 is 11324621 / 2^22, a
  change of more than 2; the snap moves 2.25 to 0 in one update; and falling from 1 towards
  a target of 0.25 ends at 0, below the target.
\<close>

theorem updateDisplayedStepPace_counterexample:
  "nat \<lceil>\<bar>(120::real) - 100\<bar> / 2\<rceil> = 10
   \<and> paceAfter 10 100 120 = 100
   \<and> \<not> \<bar>paceAfter 10 100 120 - 120\<bar> \<le> 2
   \<and> updateDisplayedStepPace (11744051 / 16777216) 50 = 11324621 / 4194304
   \<and> \<not> \<bar>updateDisplayedStepPace (11744051 / 16777216) 50 - 11744051 / 16777216\<bar> \<le> 2
   \<and> updateDisplayedStepPace (9/4) 0 = 0
   \<and> \<not> \<bar>updateDisplayedStepPace (9/4) 0 - 9/4\<bar> \<le> 2
   \<and> updateDisplayedStepPace 1 (1/4) = 0
   \<and> updateDisplayedStepPace 1 (1/4) < 1/4"
  using float32_round_seven_tenths
  by (simp add: numeral_eq_Suc updateDisplayedStepPace_def Let_def
      float32_round_quarter float32_round_minus_one)



section \<open>Properties of the menu state machine\<close>

lemma updateMenuTimeDisplay_only_previousTime:
  "\<exists>t. fst (updateMenuTimeDisplay s) = s\<lparr>previousTime := t\<rparr>"
proof -
  have "fst (updateMenuTimeDisplay s) =
      s\<lparr>previousTime := previousTime (fst (updateMenuTimeDisplay s))\<rparr>"
    by (simp add: updateMenuTimeDisplay_def Let_def)
  then show ?thesis by (rule exI)
qed

lemma renderMainMenu_only_previousTime:
  "\<exists>t. fst (renderMainMenu s) = s\<lparr>previousTime := t\<rparr>"
proof -
  have "fst (renderMainMenu s) = fst (updateMenuTimeDisplay s)"
    by (simp add: renderMainMenu_def Let_def split: prod.splits)
  then show ?thesis using updateMenuTimeDisplay_only_previousTime[of s] by simp
qed

lemma redrawMainMenu_only_previousTime:
  "\<exists>t. redrawMainMenu s = s\<lparr>previousTime := t\<rparr>"
proof -
  obtain t where t: "fst (renderMainMenu s) = s\<lparr>previousTime := t\<rparr>"
    using renderMainMenu_only_previousTime by blast
  obtain u where "fst (updateMenuTimeDisplay (s\<lparr>previousTime := t\<rparr>)) =
      s\<lparr>previousTime := t\<rparr>\<lparr>previousTime := u\<rparr>"
    using updateMenuTimeDisplay_only_previousTime by blast
  then have "redrawMainMenu s = s\<lparr>previousTime := u\<rparr>" by (simp add: redrawMainMenu_def t)
  then show ?thesis by (rule exI)
qed


lemma outcomeState_simps [simp]:
  "outcomeState (Done s) = s" "outcomeState (Stopped w s) = s"
  by (simp_all add: outcomeState_def)

lemma pageKept_refl [simp]: "pageKept s s"
  by (simp add: pageKept_def stepDataKept_def)

lemma pageKept_trans: "pageKept s s1 \<Longrightarrow> pageKept s1 s2 \<Longrightarrow> pageKept s s2"
  by (simp add: pageKept_def stepDataKept_def)

lemma pageKept_previousTime [simp]: "pageKept s (s\<lparr>previousTime := t\<rparr>)"
  by (simp add: pageKept_def stepDataKept_def)

lemma pageKept_render [simp]:
  "pageKept s (fst (renderMainMenu s))" "pageKept s (fst (updateMenuTimeDisplay s))"
  "pageKept s (redrawMainMenu s)"
proof -
  obtain a where "fst (renderMainMenu s) = s\<lparr>previousTime := a\<rparr>"
    using renderMainMenu_only_previousTime by blast
  then show "pageKept s (fst (renderMainMenu s))" by simp
  obtain b where "fst (updateMenuTimeDisplay s) = s\<lparr>previousTime := b\<rparr>"
    using updateMenuTimeDisplay_only_previousTime by blast
  then show "pageKept s (fst (updateMenuTimeDisplay s))" by simp
  obtain c where "redrawMainMenu s = s\<lparr>previousTime := c\<rparr>"
    using redrawMainMenu_only_previousTime by blast
  then show "pageKept s (redrawMainMenu s)" by simp
qed

lemma pageKept_andThen:
  assumes "pageKept s (outcomeState r)" "\<And>s1. r = Done s1 \<Longrightarrow> pageKept s1 (outcomeState (f s1))"
  shows "pageKept s (outcomeState (andThen r f))"
proof (cases r)
  case (Done s1)
  then show ?thesis using assms pageKept_trans[of s s1] by (simp add: andThen_def)
next
  case (Stopped w s1)
  then show ?thesis using assms by (simp add: andThen_def)
qed

lemma pageKept_processTimeSetInput: "pageKept s (outcomeState (processTimeSetInput p s))"
  by (simp add: processTimeSetInput_def awaitRelease_def andThen_def pageKept_def
      stepDataKept_def Let_def)

lemma pageKept_processDateSetInput: "pageKept s (outcomeState (processDateSetInput p s))"
  by (simp add: processDateSetInput_def awaitRelease_def andThen_def pageKept_def
      stepDataKept_def Let_def split: option.splits)


lemma pageKept_timeSetLoop: "pageKept s (outcomeState (timeSetLoop ps s))"
proof (induction ps arbitrary: s)
  case Nil
  then show ?case by simp
next
  case (Cons p ps)
  note ih = Cons.IH[unfolded pageKept_def stepDataKept_def]
  show ?case
  proof (cases "inTimeSetMenu s")
    case False
    then show ?thesis by simp
  next
    case True
    show ?thesis
      apply (simp only: timeSetLoop.simps True if_True)
      apply (rule pageKept_andThen)
       apply (rule pageKept_processTimeSetInput)
      apply (simp add: pageKept_def stepDataKept_def Let_def ih split: sum.splits)
      done
  qed
qed

lemma pageKept_dateSetLoop: "pageKept s (outcomeState (dateSetLoop ps s))"
proof (induction ps arbitrary: s)
  case Nil
  then show ?case by simp
next
  case (Cons p ps)
  note ih = Cons.IH[unfolded pageKept_def stepDataKept_def]
  show ?case
  proof (cases "inTimeSetMenu s")
    case False
    then show ?thesis by simp
  next
    case True
    show ?thesis
      apply (simp only: dateSetLoop.simps True if_True)
      apply (rule pageKept_andThen)
       apply (rule pageKept_processDateSetInput)
      apply (simp add: pageKept_def stepDataKept_def Let_def ih split: sum.splits)
      done
  qed
qed

lemma pageKept_timeFormatLoop: "pageKept s (outcomeState (timeFormatLoop ps s))"
proof (induction ps arbitrary: s)
  case Nil
  then show ?case by simp
next
  case (Cons p ps)
  note ih = Cons.IH[unfolded pageKept_def stepDataKept_def]
  show ?case
    by (simp add: pageKept_def stepDataKept_def awaitRelease_def andThen_def ih)
qed

lemma pageKept_graphLoop: "pageKept s (outcomeState (graphLoop ps s))"
proof (induction ps arbitrary: s)
  case Nil
  then show ?case by simp
next
  case (Cons p ps)
  note ih = Cons.IH[unfolded pageKept_def stepDataKept_def]
  have r: "pageKept s (redrawMainMenu (s\<lparr>inMainMenu := True\<rparr>))"
    using pageKept_render(3)[of "s\<lparr>inMainMenu := True\<rparr>"]
    by (simp add: pageKept_def stepDataKept_def)
  show ?case
    using r by (simp add: pageKept_def stepDataKept_def awaitRelease_def andThen_def Let_def ih)
qed


lemma pageKept_then_redraw:
  assumes "pageKept s (outcomeState r)"
  shows "pageKept s (outcomeState (andThen r (\<lambda>s. Done (redrawMainMenu s))))"
  using assms by (intro pageKept_andThen) simp_all

lemma pageKept_executeMenuSelection:
  "pageKept s (outcomeState (executeMenuSelection e ps s))"
proof -
  have g0: "pageKept s (outcomeState (graphLoop ps (s\<lparr>isGraphDisplayed := True\<rparr>)))"
    using pageKept_graphLoop[of "s\<lparr>isGraphDisplayed := True\<rparr>" ps]
    by (simp add: pageKept_def stepDataKept_def)
  have g: "pageKept s (outcomeState (displayStepGraph ps s))"
    unfolding displayStepGraph_def
    by (rule pageKept_andThen[OF g0]) (simp add: pageKept_def stepDataKept_def)
  have f: "pageKept s (outcomeState (manageTimeFormatSelection ps s))"
    unfolding manageTimeFormatSelection_def
    using pageKept_timeFormatLoop[of "s\<lparr>inTimeFormatMenu := True,
          timeFormatOption := (if use12HourFormat s then 0 else 1)\<rparr>" ps]
    by (simp add: pageKept_def stepDataKept_def)
  have t: "pageKept s (outcomeState (manageTimeSetPage e ps s))"
    unfolding manageTimeSetPage_def Let_def
    using pageKept_timeSetLoop[of "s\<lparr>inTimeSetMenu := True,
                 timeToSet := \<lparr>TimeSetting.hours = hours (systemClock s),
                                minutes = minutes (systemClock s)\<rparr>,
                 timeFieldSelected := 0, tiltCount := 0\<rparr>" ps]
    by (simp add: pageKept_def stepDataKept_def)
  have d: "pageKept s (outcomeState (manageDateSetPage e ps s))"
    unfolding manageDateSetPage_def Let_def
    using pageKept_dateSetLoop[of "s\<lparr>inTimeSetMenu := True,
                 dateToSet := \<lparr>DateSetting.day = day (systemClock s),
                                month = month (systemClock s)\<rparr>,
                 dateFieldSelected := 0, tiltCount := 0\<rparr>" ps]
    by (simp add: pageKept_def stepDataKept_def)
  show ?thesis
    unfolding executeMenuSelection_def
    using g pageKept_then_redraw[OF f] pageKept_then_redraw[OF t] pageKept_then_redraw[OF d]
    by (simp add: pageKept_def stepDataKept_def)
qed

lemma menuKept_refl [simp]: "menuKept s s"
  by (simp add: menuKept_def stepDataKept_def)

lemma menuKept_trans: "menuKept s s1 \<Longrightarrow> menuKept s1 s2 \<Longrightarrow> menuKept s s2"
  by (simp add: menuKept_def stepDataKept_def)

lemma pageKept_menuKept: "pageKept s s' \<Longrightarrow> menuKept s s'"
  by (simp add: menuKept_def pageKept_def)

lemma menuKept_andThen:
  assumes "menuKept s (outcomeState r)" "\<And>s1. r = Done s1 \<Longrightarrow> menuKept s1 (outcomeState (f s1))"
  shows "menuKept s (outcomeState (andThen r f))"
proof (cases r)
  case (Done s1)
  then show ?thesis using assms menuKept_trans[of s s1] by (simp add: andThen_def)
next
  case (Stopped w s1)
  then show ?thesis using assms by (simp add: andThen_def)
qed

lemma menuKept_if:
  "(c \<Longrightarrow> menuKept s (outcomeState a)) \<Longrightarrow> (\<not> c \<Longrightarrow> menuKept s (outcomeState b)) \<Longrightarrow>
     menuKept s (outcomeState (if c then a else b))"
  by simp

lemma menuKept_render:
  "menuKept a s \<Longrightarrow> menuKept a (fst (renderMainMenu s))"
  "menuKept a s \<Longrightarrow> menuKept a (fst (updateMenuTimeDisplay s))"
  using pageKept_menuKept[OF pageKept_render(1)[of s]] pageKept_menuKept[OF pageKept_render(2)[of s]]
    menuKept_trans by blast+

lemma menuKept_awaitRelease: "menuKept s (outcomeState (awaitRelease p s))"
  by (simp add: awaitRelease_def)

lemma awaitRelease_Done: "awaitRelease p s = Done s1 \<Longrightarrow> s1 = s"
  by (simp add: awaitRelease_def split: if_splits)

lemma menuKept_button1WasPressed:
  "menuKept a s \<Longrightarrow> menuKept a (s\<lparr>button1WasPressed := b\<rparr>)"
  "menuKept a s \<Longrightarrow> menuKept a (s\<lparr>button2WasPressed := b\<rparr>)"
  by (simp_all add: menuKept_def stepDataKept_def)

lemma sel_dec: "(s::8 word) \<le> 4 \<Longrightarrow> s \<noteq> 0 \<Longrightarrow> s - 1 \<le> 4"
  by (simp add: word_le_nat_alt unat_sub_if' word_unat_eq_iff)

lemma sel_inc: "(s::8 word) \<le> 4 \<Longrightarrow> s \<noteq> 4 \<Longrightarrow> s + 1 \<le> 4"
  by (simp add: word_le_nat_alt unat_word_ariths word_unat_eq_iff)


lemma renderMainMenu_keeps [simp]:
  "totalSteps (fst (renderMainMenu s)) = totalSteps s"
  "stepsPerSecond (fst (renderMainMenu s)) = stepsPerSecond s"
  "currentSecondIndex (fst (renderMainMenu s)) = currentSecondIndex s"
  "currentStepPace (fst (renderMainMenu s)) = currentStepPace s"
  "wasStepThresholdExceeded (fst (renderMainMenu s)) = wasStepThresholdExceeded s"
  "currentMenuSelection (fst (renderMainMenu s)) = currentMenuSelection s"
  using pageKept_render(1)[of s] by (simp_all add: pageKept_def stepDataKept_def)

lemma updateMenuTimeDisplay_keeps [simp]:
  "totalSteps (fst (updateMenuTimeDisplay s)) = totalSteps s"
  "stepsPerSecond (fst (updateMenuTimeDisplay s)) = stepsPerSecond s"
  "currentSecondIndex (fst (updateMenuTimeDisplay s)) = currentSecondIndex s"
  "currentStepPace (fst (updateMenuTimeDisplay s)) = currentStepPace s"
  "wasStepThresholdExceeded (fst (updateMenuTimeDisplay s)) = wasStepThresholdExceeded s"
  "currentMenuSelection (fst (updateMenuTimeDisplay s)) = currentMenuSelection s"
  using pageKept_render(2)[of s] by (simp_all add: pageKept_def stepDataKept_def)

lemma menuKept_mainMenuTurn: "menuKept s (outcomeState (mainMenuTurn p e ps s))"
  unfolding mainMenuTurn_def Let_def
  apply (intro menuKept_andThen menuKept_if)
  apply (simp_all add: pageKept_menuKept[OF pageKept_executeMenuSelection])
  apply (simp_all add: menuKept_def stepDataKept_def awaitRelease_def sel_dec sel_inc
      MENU_ITEM_COUNT_def)
  done


lemma isDone_simps [simp]: "isDone (Done s)" "\<not> isDone (Stopped w s)"
  by (simp_all add: isDone_def)

lemma button1_single_press:
  assumes "inMainMenu s" "\<not> justEnteredMenu s" "released p" "button1Pressed p"
    "\<not> button2Pressed p" "\<not> button1WasPressed s"
  shows "isDone (mainLoopTurn p e ps s)"
    "currentMenuSelection (outcomeState (mainLoopTurn p e ps s)) =
       (if currentMenuSelection s = 0 then 4 else currentMenuSelection s - 1)"
  using assms
  by (simp_all add: mainLoopTurn_def mainMenuTurn_def andThen_def awaitRelease_def Let_def
      MENU_ITEM_COUNT_def)

lemma button2_single_press:
  assumes "inMainMenu s" "\<not> justEnteredMenu s" "released p" "button2Pressed p"
    "\<not> button1Pressed p" "\<not> button2WasPressed s"
  shows "isDone (mainLoopTurn p e ps s)"
    "currentMenuSelection (outcomeState (mainLoopTurn p e ps s)) =
       (if currentMenuSelection s = 4 then 0 else currentMenuSelection s + 1)"
  using assms
  by (simp_all add: mainLoopTurn_def mainMenuTurn_def andThen_def awaitRelease_def Let_def
      MENU_ITEM_COUNT_def)


text \<open>
  Claim C7. In the main menu, outside the turn that follows menu entry, a press of button 1
  alone that was not already registered and is released moves the selection index down by
  one, from 0 to 4; such a press of button 2 moves it up by one, from 4 to 0. Whatever a
  turn of the foreground loop in menu mode reads, and whichever page it opens, an index
  within 0..4 is within 0..4 afterwards.
\<close>

theorem mainMenu_selection_wraps:
  "(inMainMenu s \<and> \<not> justEnteredMenu s \<and> released p \<and> button1Pressed p
      \<and> \<not> button2Pressed p \<and> \<not> button1WasPressed s \<longrightarrow>
      isDone (mainLoopTurn p e ps s)
      \<and> currentMenuSelection (outcomeState (mainLoopTurn p e ps s)) =
          (if currentMenuSelection s = 0 then 4 else currentMenuSelection s - 1))
   \<and> (inMainMenu s \<and> \<not> justEnteredMenu s \<and> released p \<and> button2Pressed p
      \<and> \<not> button1Pressed p \<and> \<not> button2WasPressed s \<longrightarrow>
      isDone (mainLoopTurn p e ps s)
      \<and> currentMenuSelection (outcomeState (mainLoopTurn p e ps s)) =
          (if currentMenuSelection s = 4 then 0 else currentMenuSelection s + 1))
   \<and> (inMainMenu s \<and> currentMenuSelection s \<le> 4 \<longrightarrow>
      currentMenuSelection (outcomeState (mainLoopTurn p e ps s)) \<le> 4)"
proof (intro conjI impI)
  assume a: "inMainMenu s \<and> \<not> justEnteredMenu s \<and> released p \<and> button1Pressed p
      \<and> \<not> button2Pressed p \<and> \<not> button1WasPressed s"
  then show "isDone (mainLoopTurn p e ps s)"
    by (intro button1_single_press(1)) simp_all
  from a show "currentMenuSelection (outcomeState (mainLoopTurn p e ps s)) =
          (if currentMenuSelection s = 0 then 4 else currentMenuSelection s - 1)"
    by (intro button1_single_press(2)) simp_all
next
  assume a: "inMainMenu s \<and> \<not> justEnteredMenu s \<and> released p \<and> button2Pressed p
      \<and> \<not> button1Pressed p \<and> \<not> button2WasPressed s"
  then show "isDone (mainLoopTurn p e ps s)"
    by (intro button2_single_press(1)) simp_all
  from a show "currentMenuSelection (outcomeState (mainLoopTurn p e ps s)) =
          (if currentMenuSelection s = 4 then 0 else currentMenuSelection s + 1)"
    by (intro button2_single_press(2)) simp_all
next
  assume "inMainMenu s \<and> currentMenuSelection s \<le> 4"
  then show "currentMenuSelection (outcomeState (mainLoopTurn p e ps s)) \<le> 4"
    using menuKept_mainMenuTurn[of s p e ps] by (simp add: mainLoopTurn_def menuKept_def)
qed

theorem mainMenu_selection_wraps_witness:
  "inMainMenu (initialState\<lparr>inMainMenu := True\<rparr>)
   \<and> \<not> justEnteredMenu (initialState\<lparr>inMainMenu := True\<rparr>)
   \<and> \<not> button1WasPressed (initialState\<lparr>inMainMenu := True\<rparr>)
   \<and> currentMenuSelection (initialState\<lparr>inMainMenu := True\<rparr>) = 0
   \<and> currentMenuSelection (outcomeState (mainLoopTurn
         \<lparr>button1Pressed = True, button2Pressed = False, released = True, sample = Inr 0\<rparr>
         True [] (initialState\<lparr>inMainMenu := True\<rparr>))) = 4
   \<and> currentMenuSelection (outcomeState (mainLoopTurn
         \<lparr>button1Pressed = False, button2Pressed = True, released = True, sample = Inr 0\<rparr>
         True [] (initialState\<lparr>inMainMenu := True, currentMenuSelection := 4\<rparr>))) = 0"
  using mainMenu_selection_wraps
      [of "initialState\<lparr>inMainMenu := True\<rparr>"
          "\<lparr>button1Pressed = True, button2Pressed = False, released = True, sample = Inr 0\<rparr>"
          True "[]"]
    mainMenu_selection_wraps
      [of "initialState\<lparr>inMainMenu := True, currentMenuSelection := 4\<rparr>"
          "\<lparr>button1Pressed = False, button2Pressed = True, released = True, sample = Inr 0\<rparr>"
          True "[]"]
  by (simp add: initialState_def)

section \<open>Properties of the timer interrupt and of menu mode\<close>

lemma T1Interrupt_None:
  "T1Interrupt b s = None \<longleftrightarrow> incrementSystemTime (systemClock s) = None"
  by (simp add: T1Interrupt_def Let_def split_beta split: option.splits)

lemma T1Interrupt_returns:
  assumes "ClockTime_inv (systemClock s)"
  shows "T1Interrupt b s \<noteq> None"
  using incrementSystemTime_step[OF assms] by (auto simp: T1Interrupt_None)

lemma T1Interrupt_menu:
  assumes "inMainMenu s" "T1Interrupt b s = Some r"
  shows "stepDataKept s (fst r)" "inMainMenu (fst r)"
    "incrementSystemTime (systemClock s) = Some (systemClock (fst r))"
    "elapsedSeconds (fst r) = elapsedSeconds s + 1"
    "showFootIcon (fst r) = (\<not> showFootIcon s)"
  using assms
  by (auto simp: T1Interrupt_def Let_def split_beta stepDataKept_def split: option.splits if_splits)

lemma renderMainMenu_clears: "\<exists>drawn. snd (renderMainMenu s) = oledC_clearScreen # drawn"
  by (simp add: renderMainMenu_def Let_def split_beta)

lemma T1Interrupt_quiet:
  assumes "T1Interrupt b s = Some r" "isGraphDisplayed s \<or> \<not> b"
  shows "snd r = []"
  using assms
  by (auto simp: T1Interrupt_def Let_def split_beta split: option.splits if_splits)

lemma T1Interrupt_delay:
  assumes "T1Interrupt b s = Some r" "\<not> isGraphDisplayed s" "b"
    "T1_button1HoldCount s + 1 < 2 \<or> inMainMenu s"
  shows "snd r = [DELAY_milliseconds 10]"
  using assms
  by (auto simp: T1Interrupt_def Let_def split_beta split: option.splits if_splits)

lemma T1Interrupt_renders:
  assumes "T1Interrupt b s = Some r" "\<not> isGraphDisplayed s" "b"
    "2 \<le> T1_button1HoldCount s + 1" "\<not> inMainMenu s"
  shows "\<exists>drawn. snd r = oledC_clearScreen # drawn @ [DELAY_milliseconds 10]"
    "inMainMenu (fst r)" "currentMenuSelection (fst r) = 0"
proof -
  obtain t where t: "incrementSystemTime (systemClock s) = Some t"
    using assms(1) by (cases "incrementSystemTime (systemClock s)") (simp_all add: T1Interrupt_def)
  let ?m = "s\<lparr>systemClock := t, elapsedSeconds := elapsedSeconds s + 1,
      showFootIcon := \<not> showFootIcon s, T1_button1HoldCount := T1_button1HoldCount s + 1,
      inMainMenu := True, currentMenuSelection := 0\<rparr>"
  have r: "r = ((fst (renderMainMenu ?m))\<lparr>T1_button1HoldCount := 0\<rparr>,
      snd (renderMainMenu ?m) @ [DELAY_milliseconds 10])"
  proof -
    obtain a where a: "fst (renderMainMenu ?m) = ?m\<lparr>previousTime := a\<rparr>"
      using renderMainMenu_only_previousTime by blast
    show ?thesis
      using assms t by (simp add: T1Interrupt_def Let_def split_beta a)
  qed
  obtain drawn where "snd (renderMainMenu ?m) = oledC_clearScreen # drawn"
    using renderMainMenu_clears by blast
  then show "\<exists>drawn. snd r = oledC_clearScreen # drawn @ [DELAY_milliseconds 10]"
    by (simp add: r)
  obtain a where a: "fst (renderMainMenu ?m) = ?m\<lparr>previousTime := a\<rparr>"
    using renderMainMenu_only_previousTime by blast
  show "inMainMenu (fst r)" "currentMenuSelection (fst r) = 0"
    by (simp_all add: r a)
qed


text \<open>
  Claim C3, amended. With a clock value in range the handler returns. It makes no display
  call and no delay when button 1 reads released or the graph is displayed. When button 1
  reads pressed and the graph is not displayed it waits 10 ms; and on the tick at which the
  hold count reaches 2 outside menu mode it sets \<open>inMainMenu\<close>, resets the selection to 0
  and calls \<open>renderMainMenu\<close> itself, clearing the screen and drawing the menu, before
  that delay.
\<close>

theorem T1Interrupt_display_calls:
  "(ClockTime_inv (systemClock s) \<longrightarrow> T1Interrupt b s \<noteq> None)
   \<and> (T1Interrupt b s = Some r \<and> (isGraphDisplayed s \<or> \<not> b) \<longrightarrow> snd r = [])
   \<and> (T1Interrupt b s = Some r \<and> \<not> isGraphDisplayed s \<and> b
        \<and> (T1_button1HoldCount s + 1 < 2 \<or> inMainMenu s) \<longrightarrow>
      snd r = [DELAY_milliseconds 10])
   \<and> (T1Interrupt b s = Some r \<and> \<not> isGraphDisplayed s \<and> b
        \<and> 2 \<le> T1_button1HoldCount s + 1 \<and> \<not> inMainMenu s \<longrightarrow>
      (\<exists>drawn. snd r = oledC_clearScreen # drawn @ [DELAY_milliseconds 10])
      \<and> inMainMenu (fst r) \<and> currentMenuSelection (fst r) = 0)"
  using T1Interrupt_returns[of s b] T1Interrupt_quiet[of b s r] T1Interrupt_delay[of b s r]
    T1Interrupt_renders[of b s r]
  by blast

lemma initialState_clock: "ClockTime_inv (systemClock initialState)"
  by (simp add: initialState_def ClockTime_inv_def DAYS_PER_MONTH_def)

theorem T1Interrupt_display_calls_witness:
  "ClockTime_inv (systemClock initialState)
   \<and> \<not> isGraphDisplayed initialState
   \<and> T1_button1HoldCount initialState + 1 < 2
   \<and> T1Interrupt True initialState \<noteq> None
   \<and> snd (the (T1Interrupt True initialState)) = [DELAY_milliseconds 10]
   \<and> snd (the (T1Interrupt False initialState)) = []
   \<and> 2 \<le> T1_button1HoldCount (initialState\<lparr>T1_button1HoldCount := 1\<rparr>) + 1
   \<and> \<not> inMainMenu (initialState\<lparr>T1_button1HoldCount := 1\<rparr>)
   \<and> T1Interrupt True (initialState\<lparr>T1_button1HoldCount := 1\<rparr>) \<noteq> None
   \<and> inMainMenu (fst (the (T1Interrupt True (initialState\<lparr>T1_button1HoldCount := 1\<rparr>))))
   \<and> hd (snd (the (T1Interrupt True (initialState\<lparr>T1_button1HoldCount := 1\<rparr>)))) =
       oledC_clearScreen"
  using T1Interrupt_display_calls
      [where s = initialState and b = True and r = "the (T1Interrupt True initialState)"]
    T1Interrupt_display_calls
      [where s = initialState and b = False and r = "the (T1Interrupt False initialState)"]
    T1Interrupt_display_calls
      [where s = "initialState\<lparr>T1_button1HoldCount := 1\<rparr>" and b = True
         and r = "the (T1Interrupt True (initialState\<lparr>T1_button1HoldCount := 1\<rparr>))"]
    initialState_clock
  by (auto simp: initialState_def)

text \<open>
  The claim as worded fails on the second tick of a hold of button 1 from the clock screen:
  the handler clears the screen, draws the five menu lines, the cursor, the time and the
  AM marker, and then waits 10 ms.
\<close>

theorem T1Interrupt_renders_menu_counterexample:
  "map_option snd (T1Interrupt True (initialState\<lparr>T1_button1HoldCount := 1\<rparr>)) =
     Some [oledC_clearScreen,
       oledC_DrawString 10 20 1 1 ''PedometerGraph'' OLEDC_COLOR_WHITE,
       oledC_DrawString 4 20 1 1 ''>'' OLEDC_COLOR_WHITE,
       oledC_DrawString 10 32 1 1 ''12H/24H'' OLEDC_COLOR_WHITE,
       oledC_DrawString 10 44 1 1 ''Set Time'' OLEDC_COLOR_WHITE,
       oledC_DrawString 10 56 1 1 ''Set Date'' OLEDC_COLOR_WHITE,
       oledC_DrawString 10 68 1 1 ''Exit'' OLEDC_COLOR_WHITE,
       oledC_DrawRectangle 48 80 115 88 OLEDC_COLOR_BLACK,
       oledC_DrawString 48 80 1 1 ''04:00:01'' OLEDC_COLOR_WHITE,
       oledC_DrawString 0 80 1 1 ''AM'' OLEDC_COLOR_WHITE,
       DELAY_milliseconds 10]"
  by (simp add: T1Interrupt_def initialState_def incrementSystemTime_def Let_def
      renderMainMenu_def updateMenuTimeDisplay_def formatTwoDigits_def MENU_OPTIONS_def
      MENU_ITEM_COUNT_def upt_rec char_of_def word_le_nat_alt bit_Suc_0_iff)

text \<open>
  Claim C9. In menu mode a tick of the handler leaves the step buckets, their index, the
  raw pace and the step total as they are, stays in menu mode, and still advances the clock
  by one second, increments \<open>elapsedSeconds\<close> and toggles the blink flag; with a clock
  value in range it returns. A turn of the foreground loop in menu mode, whatever it reads
  and whichever page it opens, leaves the step total, the buckets, their index, the raw
  pace and the detector flag as they are: it takes no step sample.
\<close>

theorem menu_mode_freezes_step_data:
  "(ClockTime_inv (systemClock s) \<longrightarrow> T1Interrupt b s \<noteq> None)
   \<and> (inMainMenu s \<and> T1Interrupt b s = Some r \<longrightarrow>
        stepsPerSecond (fst r) = stepsPerSecond s
        \<and> currentSecondIndex (fst r) = currentSecondIndex s
        \<and> currentStepPace (fst r) = currentStepPace s
        \<and> totalSteps (fst r) = totalSteps s
        \<and> inMainMenu (fst r)
        \<and> incrementSystemTime (systemClock s) = Some (systemClock (fst r))
        \<and> elapsedSeconds (fst r) = elapsedSeconds s + 1
        \<and> showFootIcon (fst r) = (\<not> showFootIcon s))
   \<and> (inMainMenu s \<longrightarrow>
        totalSteps (outcomeState (mainLoopTurn p e ps s)) = totalSteps s
        \<and> stepsPerSecond (outcomeState (mainLoopTurn p e ps s)) = stepsPerSecond s
        \<and> currentSecondIndex (outcomeState (mainLoopTurn p e ps s)) = currentSecondIndex s
        \<and> currentStepPace (outcomeState (mainLoopTurn p e ps s)) = currentStepPace s
        \<and> wasStepThresholdExceeded (outcomeState (mainLoopTurn p e ps s)) =
            wasStepThresholdExceeded s)"
proof (intro conjI impI)
  assume "ClockTime_inv (systemClock s)"
  then show "T1Interrupt b s \<noteq> None" by (rule T1Interrupt_returns)
next
  assume a: "inMainMenu s \<and> T1Interrupt b s = Some r"
  then have m: "inMainMenu s" and t: "T1Interrupt b s = Some r" by simp_all
  note k = T1Interrupt_menu[OF m t]
  show "stepsPerSecond (fst r) = stepsPerSecond s" "currentSecondIndex (fst r) = currentSecondIndex s"
    "currentStepPace (fst r) = currentStepPace s" "totalSteps (fst r) = totalSteps s"
    using k(1) by (simp_all add: stepDataKept_def)
  show "inMainMenu (fst r)" by (rule k(2))
  show "incrementSystemTime (systemClock s) = Some (systemClock (fst r))" by (rule k(3))
  show "elapsedSeconds (fst r) = elapsedSeconds s + 1" by (rule k(4))
  show "showFootIcon (fst r) = (\<not> showFootIcon s)" by (rule k(5))
next
  assume m: "inMainMenu s"
  have k: "stepDataKept s (outcomeState (mainLoopTurn p e ps s))"
    using menuKept_mainMenuTurn[of s p e ps] m by (simp add: mainLoopTurn_def menuKept_def)
  show "totalSteps (outcomeState (mainLoopTurn p e ps s)) = totalSteps s"
    "stepsPerSecond (outcomeState (mainLoopTurn p e ps s)) = stepsPerSecond s"
    "currentSecondIndex (outcomeState (mainLoopTurn p e ps s)) = currentSecondIndex s"
    "currentStepPace (outcomeState (mainLoopTurn p e ps s)) = currentStepPace s"
    "wasStepThresholdExceeded (outcomeState (mainLoopTurn p e ps s)) = wasStepThresholdExceeded s"
    using k by (simp_all add: stepDataKept_def)
qed


theorem menu_mode_freezes_step_data_witness:
  "inMainMenu (initialState\<lparr>inMainMenu := True, totalSteps := 7\<rparr>)
   \<and> ClockTime_inv (systemClock (initialState\<lparr>inMainMenu := True, totalSteps := 7\<rparr>))
   \<and> T1Interrupt False (initialState\<lparr>inMainMenu := True, totalSteps := 7\<rparr>) \<noteq> None
   \<and> totalSteps (fst (the (T1Interrupt False
         (initialState\<lparr>inMainMenu := True, totalSteps := 7\<rparr>)))) = 7
   \<and> currentStepPace (fst (the (T1Interrupt False
         (initialState\<lparr>inMainMenu := True, totalSteps := 7\<rparr>)))) = 0
   \<and> elapsedSeconds (fst (the (T1Interrupt False
         (initialState\<lparr>inMainMenu := True, totalSteps := 7\<rparr>)))) = 1
   \<and> totalSteps (outcomeState (mainLoopTurn
         \<lparr>button1Pressed = False, button2Pressed = True, released = True, sample = Inr 2000\<rparr>
         True [] (initialState\<lparr>inMainMenu := True, totalSteps := 7\<rparr>))) = 7"
  using menu_mode_freezes_step_data
      [of "initialState\<lparr>inMainMenu := True, totalSteps := 7\<rparr>" False
          "the (T1Interrupt False (initialState\<lparr>inMainMenu := True, totalSteps := 7\<rparr>))"
          "\<lparr>button1Pressed = False, button2Pressed = True, released = True, sample = Inr 2000\<rparr>"
          True "[]"]
    initialState_clock
  by (auto simp: initialState_def)

section \<open>Properties of the set-date input\<close>

lemma DAYS_PER_MONTH_at_Some:
  assumes "1 \<le> m" "m \<le> 12"
  shows "DAYS_PER_MONTH_at m = Some (DAYS_PER_MONTH ! (unat m - 1))"
  using assms by (simp add: DAYS_PER_MONTH_at_def)

lemma day_increment:
  assumes "DateSetting_inv d"
  shows "DateSetting.day d mod (DAYS_PER_MONTH ! (unat (DateSetting.month d) - 1)) + 1 =
     (if DateSetting.day d = DAYS_PER_MONTH ! (unat (DateSetting.month d) - 1) then 1
      else DateSetting.day d + 1)"
    "DateSetting_inv (d\<lparr>DateSetting.day :=
        DateSetting.day d mod (DAYS_PER_MONTH ! (unat (DateSetting.month d) - 1)) + 1\<rparr>)"
proof -
  have m: "1 \<le> DateSetting.month d" "DateSetting.month d \<le> 12"
    using assms by (simp_all add: DateSetting_inv_def)
  from month_cases[OF m] assms
  show "DateSetting.day d mod (DAYS_PER_MONTH ! (unat (DateSetting.month d) - 1)) + 1 =
     (if DateSetting.day d = DAYS_PER_MONTH ! (unat (DateSetting.month d) - 1) then 1
      else DateSetting.day d + 1)"
    by (elim disjE; simp add: DateSetting_inv_def DAYS_PER_MONTH_def w2n unat_mod; arith)
  from month_cases[OF m] assms
  show "DateSetting_inv (d\<lparr>DateSetting.day :=
        DateSetting.day d mod (DAYS_PER_MONTH ! (unat (DateSetting.month d) - 1)) + 1\<rparr>)"
    by (elim disjE; simp add: DateSetting_inv_def DAYS_PER_MONTH_def w2n unat_mod; arith)
qed


lemma day_decrement:
  assumes "DateSetting_inv d"
  shows "DateSetting_inv (d\<lparr>DateSetting.day :=
       (if DateSetting.day d = 1 then DAYS_PER_MONTH ! (unat (DateSetting.month d) - 1)
        else DateSetting.day d - 1)\<rparr>)"
proof -
  have m: "1 \<le> DateSetting.month d" "DateSetting.month d \<le> 12"
    using assms by (simp_all add: DateSetting_inv_def)
  from month_cases[OF m] assms show ?thesis
    by (elim disjE; simp add: DateSetting_inv_def DAYS_PER_MONTH_def w2n unat_sub_if'; arith)
qed

lemma month_change:
  assumes "1 \<le> m'" "m' \<le> 12" "1 \<le> DateSetting.day d"
  shows "DateSetting_inv (d\<lparr>DateSetting.month := m',
       DateSetting.day := min (DateSetting.day d) (DAYS_PER_MONTH ! (unat m' - 1))\<rparr>)"
  using month_cases[OF assms(1,2)] assms
  by (elim disjE; simp add: DateSetting_inv_def DAYS_PER_MONTH_def w2n min_def)

lemma month_increment:
  assumes "1 \<le> (m::8 word)" "m \<le> 12"
  shows "m mod 12 + 1 = (if m = 12 then 1 else m + 1)" "1 \<le> m mod 12 + 1" "m mod 12 + 1 \<le> 12"
  using month_cases[OF assms] by (elim disjE; simp)+

lemma month_decrement:
  assumes "1 \<le> (m::8 word)" "m \<le> 12"
  shows "1 \<le> (if m = 1 then 12 else m - 1)" "(if m = 1 then 12 else m - 1) \<le> 12"
  using month_cases[OF assms] by (elim disjE; simp)+


lemma date_day_up:
  assumes "DateSetting_inv (dateToSet s)" "released p" "button1Pressed p" "\<not> button2Pressed p"
    "dateFieldSelected s = 0"
  shows "processDateSetInput p s =
     Done (s\<lparr>dateToSet := (dateToSet s)\<lparr>DateSetting.day :=
        (if DateSetting.day (dateToSet s) =
              DAYS_PER_MONTH ! (unat (DateSetting.month (dateToSet s)) - 1)
         then 1 else DateSetting.day (dateToSet s) + 1)\<rparr>\<rparr>)"
proof -
  have m: "1 \<le> DateSetting.month (dateToSet s)" "DateSetting.month (dateToSet s) \<le> 12"
    using assms(1) by (simp_all add: DateSetting_inv_def)
  show ?thesis
    using assms(2-5) DAYS_PER_MONTH_at_Some[OF m] day_increment(1)[OF assms(1)]
    by (simp add: processDateSetInput_def awaitRelease_def andThen_def Let_def)
qed

lemma date_day_down:
  assumes "DateSetting_inv (dateToSet s)" "released p" "button2Pressed p" "\<not> button1Pressed p"
    "dateFieldSelected s = 0"
  shows "processDateSetInput p s =
     Done (s\<lparr>dateToSet := (dateToSet s)\<lparr>DateSetting.day :=
        (if DateSetting.day (dateToSet s) = 1
         then DAYS_PER_MONTH ! (unat (DateSetting.month (dateToSet s)) - 1)
         else DateSetting.day (dateToSet s) - 1)\<rparr>\<rparr>)"
proof -
  have m: "1 \<le> DateSetting.month (dateToSet s)" "DateSetting.month (dateToSet s) \<le> 12"
    using assms(1) by (simp_all add: DateSetting_inv_def)
  show ?thesis
    using assms(2-5) DAYS_PER_MONTH_at_Some[OF m]
    by (simp add: processDateSetInput_def awaitRelease_def andThen_def Let_def)
qed

lemma date_month_up:
  assumes "DateSetting_inv (dateToSet s)" "released p" "button1Pressed p" "\<not> button2Pressed p"
    "dateFieldSelected s \<noteq> 0"
  shows "processDateSetInput p s =
     Done (s\<lparr>dateToSet := (dateToSet s)
       \<lparr>DateSetting.month :=
          (if DateSetting.month (dateToSet s) = 12 then 1
           else DateSetting.month (dateToSet s) + 1),
        DateSetting.day :=
          min (DateSetting.day (dateToSet s))
            (DAYS_PER_MONTH ! (unat (if DateSetting.month (dateToSet s) = 12 then 1
               else DateSetting.month (dateToSet s) + 1) - 1))\<rparr>\<rparr>)"
proof -
  have m: "1 \<le> DateSetting.month (dateToSet s)" "DateSetting.month (dateToSet s) \<le> 12"
    using assms(1) by (simp_all add: DateSetting_inv_def)
  note i = month_increment[OF m]
  have at: "DAYS_PER_MONTH_at (DateSetting.month (dateToSet s) mod 12 + 1) =
      Some (DAYS_PER_MONTH ! (unat (DateSetting.month (dateToSet s) mod 12 + 1) - 1))"
    using i(2,3) by (rule DAYS_PER_MONTH_at_Some)
  show ?thesis
    using assms(2-5) at i(1)
    by (simp add: processDateSetInput_def awaitRelease_def andThen_def Let_def
        min_def not_less)
qed

lemma date_month_down:
  assumes "DateSetting_inv (dateToSet s)" "released p" "button2Pressed p" "\<not> button1Pressed p"
    "dateFieldSelected s \<noteq> 0"
  shows "processDateSetInput p s =
     Done (s\<lparr>dateToSet := (dateToSet s)
       \<lparr>DateSetting.month :=
          (if DateSetting.month (dateToSet s) = 1 then 12
           else DateSetting.month (dateToSet s) - 1),
        DateSetting.day :=
          min (DateSetting.day (dateToSet s))
            (DAYS_PER_MONTH ! (unat (if DateSetting.month (dateToSet s) = 1 then 12
               else DateSetting.month (dateToSet s) - 1) - 1))\<rparr>\<rparr>)"
proof -
  have m: "1 \<le> DateSetting.month (dateToSet s)" "DateSetting.month (dateToSet s) \<le> 12"
    using assms(1) by (simp_all add: DateSetting_inv_def)
  note i = month_decrement[OF m]
  have at: "DAYS_PER_MONTH_at (if DateSetting.month (dateToSet s) = 1 then 12
        else DateSetting.month (dateToSet s) - 1) =
      Some (DAYS_PER_MONTH ! (unat (if DateSetting.month (dateToSet s) = 1 then 12
        else DateSetting.month (dateToSet s) - 1) - 1))"
    using i by (rule DAYS_PER_MONTH_at_Some)
  show ?thesis
  proof (cases "DateSetting.month (dateToSet s) = 1")
    case True
    then show ?thesis
      using assms(2-5) at
      by (simp add: processDateSetInput_def awaitRelease_def andThen_def Let_def
          min_def not_less)
  next
    case False
    then show ?thesis
      using assms(2-5) at
      by (simp add: processDateSetInput_def awaitRelease_def andThen_def Let_def
          min_def not_less)
  qed
qed


lemma processDateSetInput_inv:
  assumes "DateSetting_inv (dateToSet s)"
  shows "DateSetting_inv (dateToSet (outcomeState (processDateSetInput p s)))"
proof (cases "released p")
  case False
  then show ?thesis using assms
    by (simp add: processDateSetInput_def awaitRelease_def andThen_def)
next
  case True
  have m: "1 \<le> DateSetting.month (dateToSet s)" "DateSetting.month (dateToSet s) \<le> 12"
    and d: "1 \<le> DateSetting.day (dateToSet s)"
    using assms by (simp_all add: DateSetting_inv_def)
  consider (both) "button1Pressed p" "button2Pressed p"
    | (b1) "button1Pressed p" "\<not> button2Pressed p"
    | (b2) "button2Pressed p" "\<not> button1Pressed p"
    | (none) "\<not> button1Pressed p" "\<not> button2Pressed p"
    by blast
  then show ?thesis
  proof cases
    case both
    then show ?thesis using assms True
      by (simp add: processDateSetInput_def awaitRelease_def andThen_def)
  next
    case none
    then show ?thesis using assms by (simp add: processDateSetInput_def)
  next
    case b1
    show ?thesis
    proof (cases "dateFieldSelected s = 0")
      case True
      show ?thesis
        using day_increment[OF assms]
        by (simp add: date_day_up[OF assms \<open>released p\<close> b1 True])
    next
      case False
      show ?thesis
        using month_change[OF month_increment(2,3)[OF m] d] month_increment(1)[OF m]
        by (simp add: date_month_up[OF assms \<open>released p\<close> b1 False])
    qed
  next
    case b2
    show ?thesis
    proof (cases "dateFieldSelected s = 0")
      case True
      show ?thesis
        using day_decrement[OF assms]
        by (simp add: date_day_down[OF assms \<open>released p\<close> b2 True])
    next
      case False
      show ?thesis
        using month_change[OF month_decrement[OF m] d]
        by (simp add: date_month_down[OF assms \<open>released p\<close> b2 False])
    qed
  qed
qed

text \<open>
  Claim C6. On the set-date page, with a staged date of the table (month 1--12, day from 1
  to the month's count) and the wait for release ending: button 1 on the day field moves
  the day up by one and from the month's count to 1; button 2 on the day field moves it
  down by one and from 1 to the month's count; button 1 on the month field moves the month
  up by one, from 12 to 1, and button 2 moves it down by one, from 1 to 12, and in both a
  day above the new month's count becomes that count. Whatever a poll reads, the staged
  date is a date of the table afterwards, so the day never exceeds the month's count.
\<close>

theorem processDateSetInput_respects_month:
  "(DateSetting_inv (dateToSet s) \<and> released p \<and> button1Pressed p \<and> \<not> button2Pressed p
      \<and> dateFieldSelected s = 0 \<longrightarrow>
      processDateSetInput p s =
        Done (s\<lparr>dateToSet := (dateToSet s)\<lparr>DateSetting.day :=
          (if DateSetting.day (dateToSet s) =
                DAYS_PER_MONTH ! (unat (DateSetting.month (dateToSet s)) - 1)
           then 1 else DateSetting.day (dateToSet s) + 1)\<rparr>\<rparr>))
   \<and> (DateSetting_inv (dateToSet s) \<and> released p \<and> button2Pressed p \<and> \<not> button1Pressed p
      \<and> dateFieldSelected s = 0 \<longrightarrow>
      processDateSetInput p s =
        Done (s\<lparr>dateToSet := (dateToSet s)\<lparr>DateSetting.day :=
          (if DateSetting.day (dateToSet s) = 1
           then DAYS_PER_MONTH ! (unat (DateSetting.month (dateToSet s)) - 1)
           else DateSetting.day (dateToSet s) - 1)\<rparr>\<rparr>))
   \<and> (DateSetting_inv (dateToSet s) \<and> released p \<and> button1Pressed p \<and> \<not> button2Pressed p
      \<and> dateFieldSelected s \<noteq> 0 \<longrightarrow>
      processDateSetInput p s =
        Done (s\<lparr>dateToSet := (dateToSet s)
          \<lparr>DateSetting.month :=
             (if DateSetting.month (dateToSet s) = 12 then 1
              else DateSetting.month (dateToSet s) + 1),
           DateSetting.day :=
             min (DateSetting.day (dateToSet s))
               (DAYS_PER_MONTH ! (unat (if DateSetting.month (dateToSet s) = 12 then 1
                  else DateSetting.month (dateToSet s) + 1) - 1))\<rparr>\<rparr>))
   \<and> (DateSetting_inv (dateToSet s) \<and> released p \<and> button2Pressed p \<and> \<not> button1Pressed p
      \<and> dateFieldSelected s \<noteq> 0 \<longrightarrow>
      processDateSetInput p s =
        Done (s\<lparr>dateToSet := (dateToSet s)
          \<lparr>DateSetting.month :=
             (if DateSetting.month (dateToSet s) = 1 then 12
              else DateSetting.month (dateToSet s) - 1),
           DateSetting.day :=
             min (DateSetting.day (dateToSet s))
               (DAYS_PER_MONTH ! (unat (if DateSetting.month (dateToSet s) = 1 then 12
                  else DateSetting.month (dateToSet s) - 1) - 1))\<rparr>\<rparr>))
   \<and> (DateSetting_inv (dateToSet s) \<longrightarrow>
      DateSetting_inv (dateToSet (outcomeState (processDateSetInput p s))))"
  using date_day_up[of s p] date_day_down[of s p] date_month_up[of s p] date_month_down[of s p]
    processDateSetInput_inv[of s p]
  by blast

theorem processDateSetInput_respects_month_witness:
  "DateSetting_inv \<lparr>DateSetting.day = 31, month = 3\<rparr>
   \<and> dateToSet (outcomeState (processDateSetInput
        \<lparr>button1Pressed = True, button2Pressed = False, released = True, sample = Inr 700\<rparr>
        (initialState\<lparr>dateToSet := \<lparr>DateSetting.day = 31, month = 3\<rparr>,
                      dateFieldSelected := 1\<rparr>))) = \<lparr>DateSetting.day = 30, month = 4\<rparr>
   \<and> dateToSet (outcomeState (processDateSetInput
        \<lparr>button1Pressed = False, button2Pressed = True, released = True, sample = Inr 700\<rparr>
        (initialState\<lparr>dateToSet := \<lparr>DateSetting.day = 31, month = 3\<rparr>,
                      dateFieldSelected := 1\<rparr>))) = \<lparr>DateSetting.day = 28, month = 2\<rparr>
   \<and> dateToSet (outcomeState (processDateSetInput
        \<lparr>button1Pressed = True, button2Pressed = False, released = True, sample = Inr 700\<rparr>
        (initialState\<lparr>dateToSet := \<lparr>DateSetting.day = 31, month = 3\<rparr>,
                      dateFieldSelected := 0\<rparr>))) = \<lparr>DateSetting.day = 1, month = 3\<rparr>
   \<and> dateToSet (outcomeState (processDateSetInput
        \<lparr>button1Pressed = False, button2Pressed = True, released = True, sample = Inr 700\<rparr>
        (initialState\<lparr>dateToSet := \<lparr>DateSetting.day = 1, month = 2\<rparr>,
                      dateFieldSelected := 0\<rparr>))) = \<lparr>DateSetting.day = 28, month = 2\<rparr>"
  using processDateSetInput_respects_month
      [of "initialState\<lparr>dateToSet := \<lparr>DateSetting.day = 31, month = 3\<rparr>,
                      dateFieldSelected := 1\<rparr>"
          "\<lparr>button1Pressed = True, button2Pressed = False, released = True, sample = Inr 700\<rparr>"]
    processDateSetInput_respects_month
      [of "initialState\<lparr>dateToSet := \<lparr>DateSetting.day = 31, month = 3\<rparr>,
                      dateFieldSelected := 1\<rparr>"
          "\<lparr>button1Pressed = False, button2Pressed = True, released = True, sample = Inr 700\<rparr>"]
    processDateSetInput_respects_month
      [of "initialState\<lparr>dateToSet := \<lparr>DateSetting.day = 31, month = 3\<rparr>,
                      dateFieldSelected := 0\<rparr>"
          "\<lparr>button1Pressed = True, button2Pressed = False, released = True, sample = Inr 700\<rparr>"]
    processDateSetInput_respects_month
      [of "initialState\<lparr>dateToSet := \<lparr>DateSetting.day = 1, month = 2\<rparr>,
                      dateFieldSelected := 0\<rparr>"
          "\<lparr>button1Pressed = False, button2Pressed = True, released = True, sample = Inr 700\<rparr>"]
  by (simp add: initialState_def DateSetting_inv_def DAYS_PER_MONTH_def)

section \<open>Properties of the set-time and set-date pages\<close>

lemma processTimeSetInput_keeps:
  "systemClock (outcomeState (processTimeSetInput p s)) = systemClock s"
  "inTimeSetMenu (outcomeState (processTimeSetInput p s)) = inTimeSetMenu s"
  "tiltCount (outcomeState (processTimeSetInput p s)) = tiltCount s"
  by (simp_all add: processTimeSetInput_def awaitRelease_def andThen_def Let_def)

lemma processDateSetInput_keeps:
  "systemClock (outcomeState (processDateSetInput p s)) = systemClock s"
  "inTimeSetMenu (outcomeState (processDateSetInput p s)) = inTimeSetMenu s"
  "tiltCount (outcomeState (processDateSetInput p s)) = tiltCount s"
  by (simp_all add: processDateSetInput_def awaitRelease_def andThen_def Let_def
      split: option.splits)

lemma timeSetLoop_level:
  assumes "inTimeSetMenu s" "0 \<le> tiltCount s" "processTimeSetInput p s = Done s1"
    "readsLevel p"
  shows "timeSetLoop (p # ps) s =
     Done (s1\<lparr>tiltCount := tiltCount s + 1,
             systemClock := (systemClock s)
               \<lparr>hours := TimeSetting.hours (timeToSet s1),
                minutes := TimeSetting.minutes (timeToSet s1), seconds := 0\<rparr>,
             inTimeSetMenu := False\<rparr>)"
proof -
  have k: "systemClock s1 = systemClock s" "tiltCount s1 = tiltCount s"
    using processTimeSetInput_keeps(1,3)[of p s] assms(3) by simp_all
  show ?thesis
    using assms by (simp add: andThen_def readsLevel_def Let_def k split: sum.splits)
qed

lemma timeSetLoop_not_level:
  assumes "inTimeSetMenu s" "processTimeSetInput p s = Done s1"
    "sample p = Inr m" "\<not> checkTiltToSave m"
  shows "timeSetLoop (p # ps) s = timeSetLoop ps (s1\<lparr>tiltCount := 0\<rparr>)"
  using assms by (simp add: andThen_def Let_def)

lemma timeSetLoop_no_commit:
  assumes "inTimeSetMenu s" "\<forall>q\<in>set ps. \<not> readsLevel q"
  shows "\<not> isDone (timeSetLoop ps s)
     \<and> systemClock (outcomeState (timeSetLoop ps s)) = systemClock s
     \<and> inTimeSetMenu (outcomeState (timeSetLoop ps s))"
  using assms
proof (induction ps arbitrary: s)
  case Nil
  then show ?case by simp
next
  case (Cons p ps)
  have np: "\<not> readsLevel p" and rest: "\<forall>q\<in>set ps. \<not> readsLevel q"
    using Cons.prems(2) by simp_all
  show ?case
  proof (cases "processTimeSetInput p s")
    case (Done s1)
    have k: "systemClock s1 = systemClock s" "inTimeSetMenu s1"
      using processTimeSetInput_keeps(1,2)[of p s] Done Cons.prems(1) by simp_all
    show ?thesis
    proof (cases "sample p")
      case (Inl msg)
      then show ?thesis using Cons.prems(1) Done k by (simp add: andThen_def)
    next
      case (Inr m)
      then have nl: "\<not> checkTiltToSave m" using np by (simp add: readsLevel_def)
      have "inTimeSetMenu (s1\<lparr>tiltCount := 0\<rparr>)" using k by simp
      from Cons.IH[OF this rest]
      show ?thesis
        unfolding timeSetLoop_not_level[OF Cons.prems(1) Done Inr nl] by (simp add: k)
    qed
  next
    case (Stopped w s1)
    have k: "systemClock s1 = systemClock s" "inTimeSetMenu s1"
      using processTimeSetInput_keeps(1,2)[of p s] Stopped Cons.prems(1) by simp_all
    show ?thesis using Cons.prems(1) Stopped k by (simp add: andThen_def)
  qed
qed


lemma dateSetLoop_no_commit:
  assumes "inTimeSetMenu s" "\<forall>q\<in>set ps. \<not> readsLevel q"
  shows "\<not> isDone (dateSetLoop ps s)
     \<and> systemClock (outcomeState (dateSetLoop ps s)) = systemClock s
     \<and> inTimeSetMenu (outcomeState (dateSetLoop ps s))"
  using assms
proof (induction ps arbitrary: s)
  case Nil
  then show ?case by simp
next
  case (Cons p ps)
  have np: "\<not> readsLevel p" and rest: "\<forall>q\<in>set ps. \<not> readsLevel q"
    using Cons.prems(2) by simp_all
  show ?case
  proof (cases "processDateSetInput p s")
    case (Done s1)
    have k: "systemClock s1 = systemClock s" "inTimeSetMenu s1"
      using processDateSetInput_keeps(1,2)[of p s] Done Cons.prems(1) by simp_all
    show ?thesis
    proof (cases "sample p")
      case (Inl msg)
      then show ?thesis using Cons.prems(1) Done k by (simp add: andThen_def)
    next
      case (Inr m)
      then have nl: "\<not> checkTiltToSave m" using np by (simp add: readsLevel_def)
      have i: "inTimeSetMenu (s1\<lparr>tiltCount := 0\<rparr>)" using k by simp
      have e: "dateSetLoop (p # ps) s = dateSetLoop ps (s1\<lparr>tiltCount := 0\<rparr>)"
        using Cons.prems(1) Done Inr nl by (simp add: andThen_def Let_def)
      from Cons.IH[OF i rest]
      show ?thesis unfolding e by (simp add: k)
    qed
  next
    case (Stopped w s1)
    have k: "systemClock s1 = systemClock s" "inTimeSetMenu s1"
      using processDateSetInput_keeps(1,2)[of p s] Stopped Cons.prems(1) by simp_all
    show ?thesis using Cons.prems(1) Stopped k by (simp add: andThen_def)
  qed
qed

lemma timeSetLoop_commit_frame:
  assumes "inTimeSetMenu s" "isDone (timeSetLoop ps s)"
  shows "hours (systemClock (outcomeState (timeSetLoop ps s))) =
       TimeSetting.hours (timeToSet (outcomeState (timeSetLoop ps s)))
     \<and> minutes (systemClock (outcomeState (timeSetLoop ps s))) =
       TimeSetting.minutes (timeToSet (outcomeState (timeSetLoop ps s)))
     \<and> seconds (systemClock (outcomeState (timeSetLoop ps s))) = 0
     \<and> day (systemClock (outcomeState (timeSetLoop ps s))) = day (systemClock s)
     \<and> month (systemClock (outcomeState (timeSetLoop ps s))) = month (systemClock s)"
  using assms
proof (induction ps arbitrary: s)
  case Nil
  then show ?case by simp
next
  case (Cons p ps)
  show ?case
  proof (cases "processTimeSetInput p s")
    case (Stopped w s1)
    then show ?thesis using Cons.prems by (simp add: andThen_def)
  next
    case (Done s1)
    have k: "systemClock s1 = systemClock s" "inTimeSetMenu s1"
      using processTimeSetInput_keeps(1,2)[of p s] Done Cons.prems(1) by simp_all
    show ?thesis
    proof (cases "sample p")
      case (Inl msg)
      then show ?thesis using Cons.prems Done by (simp add: andThen_def)
    next
      case (Inr m)
      have e: "timeSetLoop (p # ps) s =
          (if checkTiltToSave m then
             (if tiltCount s1 + 1 \<ge> 1 then
                Done (s1\<lparr>tiltCount := tiltCount s1 + 1,
                    systemClock := (systemClock s1)
                      \<lparr>hours := TimeSetting.hours (timeToSet s1),
                       minutes := TimeSetting.minutes (timeToSet s1), seconds := 0\<rparr>,
                    inTimeSetMenu := False\<rparr>)
              else timeSetLoop ps (s1\<lparr>tiltCount := tiltCount s1 + 1\<rparr>))
           else timeSetLoop ps (s1\<lparr>tiltCount := 0\<rparr>))"
        using Cons.prems(1) Done Inr by (simp add: andThen_def Let_def)
      have i1: "inTimeSetMenu (s1\<lparr>tiltCount := tiltCount s1 + 1\<rparr>)"
        and i2: "inTimeSetMenu (s1\<lparr>tiltCount := 0\<rparr>)" using k by simp_all
      show ?thesis
        using Cons.prems(2) Cons.IH[OF i1] Cons.IH[OF i2]
        unfolding e by (simp add: k split: if_splits)
    qed
  qed
qed

lemma dateSetLoop_commit_frame:
  assumes "inTimeSetMenu s" "isDone (dateSetLoop ps s)"
  shows "day (systemClock (outcomeState (dateSetLoop ps s))) =
       DateSetting.day (dateToSet (outcomeState (dateSetLoop ps s)))
     \<and> month (systemClock (outcomeState (dateSetLoop ps s))) =
       DateSetting.month (dateToSet (outcomeState (dateSetLoop ps s)))
     \<and> hours (systemClock (outcomeState (dateSetLoop ps s))) = hours (systemClock s)
     \<and> minutes (systemClock (outcomeState (dateSetLoop ps s))) = minutes (systemClock s)
     \<and> seconds (systemClock (outcomeState (dateSetLoop ps s))) = seconds (systemClock s)"
  using assms
proof (induction ps arbitrary: s)
  case Nil
  then show ?case by simp
next
  case (Cons p ps)
  show ?case
  proof (cases "processDateSetInput p s")
    case (Stopped w s1)
    then show ?thesis using Cons.prems by (simp add: andThen_def)
  next
    case (Done s1)
    have k: "systemClock s1 = systemClock s" "inTimeSetMenu s1"
      using processDateSetInput_keeps(1,2)[of p s] Done Cons.prems(1) by simp_all
    show ?thesis
    proof (cases "sample p")
      case (Inl msg)
      then show ?thesis using Cons.prems Done by (simp add: andThen_def)
    next
      case (Inr m)
      have e: "dateSetLoop (p # ps) s =
          (if checkTiltToSave m then
             (if tiltCount s1 + 1 \<ge> 1 then
                Done (s1\<lparr>tiltCount := tiltCount s1 + 1,
                    systemClock := (systemClock s1)
                      \<lparr>day := DateSetting.day (dateToSet s1),
                       month := DateSetting.month (dateToSet s1)\<rparr>,
                    inTimeSetMenu := False\<rparr>)
              else dateSetLoop ps (s1\<lparr>tiltCount := tiltCount s1 + 1\<rparr>))
           else dateSetLoop ps (s1\<lparr>tiltCount := 0\<rparr>))"
        using Cons.prems(1) Done Inr by (simp add: andThen_def Let_def)
      have i1: "inTimeSetMenu (s1\<lparr>tiltCount := tiltCount s1 + 1\<rparr>)"
        and i2: "inTimeSetMenu (s1\<lparr>tiltCount := 0\<rparr>)" using k by simp_all
      show ?thesis
        using Cons.prems(2) Cons.IH[OF i1] Cons.IH[OF i2]
        unfolding e by (simp add: k split: if_splits)
    qed
  qed
qed



lemma timeEdits_append: "timeEdits (xs @ ys) s = timeEdits ys (timeEdits xs s)"
  by (induction xs arbitrary: s) simp_all

lemma dateEdits_append: "dateEdits (xs @ ys) s = dateEdits ys (dateEdits xs s)"
  by (induction xs arbitrary: s) simp_all

lemma timeEdits_keeps:
  "systemClock (timeEdits ps s) = systemClock s"
  "inTimeSetMenu (timeEdits ps s) = inTimeSetMenu s"
  "tiltCount (timeEdits ps s) = tiltCount s"
  by (induction ps arbitrary: s) (simp_all add: processTimeSetInput_keeps)

lemma dateEdits_keeps:
  "systemClock (dateEdits ps s) = systemClock s"
  "inTimeSetMenu (dateEdits ps s) = inTimeSetMenu s"
  "tiltCount (dateEdits ps s) = tiltCount s"
  by (induction ps arbitrary: s) (simp_all add: processDateSetInput_keeps)

lemma dateEdits_inv:
  "DateSetting_inv (dateToSet s) \<Longrightarrow> DateSetting_inv (dateToSet (dateEdits ps s))"
  by (induction ps arbitrary: s) (simp_all add: processDateSetInput_inv)

lemma processTimeSetInput_returns:
  assumes "inputReturns p"
  shows "processTimeSetInput p s = Done (outcomeState (processTimeSetInput p s))"
  using assms
  by (simp add: processTimeSetInput_def inputReturns_def awaitRelease_def andThen_def Let_def)

lemma processDateSetInput_returns:
  assumes "DateSetting_inv (dateToSet s)" "inputReturns p"
  shows "processDateSetInput p s = Done (outcomeState (processDateSetInput p s))"
proof -
  consider (both) "button1Pressed p" "button2Pressed p"
    | (b1) "button1Pressed p" "\<not> button2Pressed p"
    | (b2) "button2Pressed p" "\<not> button1Pressed p"
    | (none) "\<not> button1Pressed p" "\<not> button2Pressed p"
    by blast
  then show ?thesis
  proof cases
    case both
    then show ?thesis using assms(2)
      by (simp add: processDateSetInput_def inputReturns_def awaitRelease_def andThen_def)
  next
    case none
    then show ?thesis by (simp add: processDateSetInput_def)
  next
    case b1
    then have r: "released p" using assms(2) by (simp add: inputReturns_def)
    show ?thesis
    proof (cases "dateFieldSelected s = 0")
      case True
      show ?thesis by (simp add: date_day_up[OF assms(1) r b1 True])
    next
      case False
      show ?thesis by (simp add: date_month_up[OF assms(1) r b1 False])
    qed
  next
    case b2
    then have r: "released p" using assms(2) by (simp add: inputReturns_def)
    show ?thesis
    proof (cases "dateFieldSelected s = 0")
      case True
      show ?thesis by (simp add: date_day_down[OF assms(1) r b2 True])
    next
      case False
      show ?thesis by (simp add: date_month_down[OF assms(1) r b2 False])
    qed
  qed
qed

lemma tiltCount_reset_idle: "tiltCount s = 0 \<Longrightarrow> s\<lparr>tiltCount := 0\<rparr> = s"
proof -
  assume a: "tiltCount s = 0"
  have "s\<lparr>tiltCount := tiltCount s\<rparr> = s" by simp
  then show ?thesis using a by simp
qed

lemma timeSetLoop_tilted:
  assumes "inTimeSetMenu s" "tiltCount s = 0" "\<forall>q\<in>set pre. inputReturns q \<and> readsTilted q"
  shows "timeSetLoop (pre @ rest) s = timeSetLoop rest (timeEdits pre s)"
  using assms
proof (induction pre arbitrary: s)
  case Nil
  then show ?case by simp
next
  case (Cons q pre)
  let ?s1 = "outcomeState (processTimeSetInput q s)"
  have q: "inputReturns q" "readsTilted q" and pre: "\<forall>q\<in>set pre. inputReturns q \<and> readsTilted q"
    using Cons.prems(3) by simp_all
  have d: "processTimeSetInput q s = Done ?s1" using q(1) by (rule processTimeSetInput_returns)
  obtain m where m: "sample q = Inr m" "\<not> checkTiltToSave m"
    using q(2) by (auto simp: readsTilted_def split: sum.splits)
  have k: "inTimeSetMenu ?s1" "tiltCount ?s1 = 0"
    using Cons.prems(1,2) by (simp_all add: processTimeSetInput_keeps)
  have "timeSetLoop ((q # pre) @ rest) s = timeSetLoop (pre @ rest) (?s1\<lparr>tiltCount := 0\<rparr>)"
    using timeSetLoop_not_level[OF Cons.prems(1) d m] by simp
  also have "?s1\<lparr>tiltCount := 0\<rparr> = ?s1" using k(2) by (rule tiltCount_reset_idle)
  also have "timeSetLoop (pre @ rest) ?s1 = timeSetLoop rest (timeEdits pre ?s1)"
    using Cons.IH[OF k pre] .
  finally show ?case by simp
qed

lemma dateSetLoop_level:
  assumes "inTimeSetMenu s" "0 \<le> tiltCount s" "processDateSetInput p s = Done s1"
    "readsLevel p"
  shows "dateSetLoop (p # ps) s =
     Done (s1\<lparr>tiltCount := tiltCount s + 1,
             systemClock := (systemClock s)
               \<lparr>day := DateSetting.day (dateToSet s1),
                month := DateSetting.month (dateToSet s1)\<rparr>,
             inTimeSetMenu := False\<rparr>)"
proof -
  have k: "systemClock s1 = systemClock s" "tiltCount s1 = tiltCount s"
    using processDateSetInput_keeps(1,3)[of p s] assms(3) by simp_all
  show ?thesis
    using assms by (simp add: andThen_def readsLevel_def Let_def k split: sum.splits)
qed

lemma dateSetLoop_not_level:
  assumes "inTimeSetMenu s" "processDateSetInput p s = Done s1"
    "sample p = Inr m" "\<not> checkTiltToSave m"
  shows "dateSetLoop (p # ps) s = dateSetLoop ps (s1\<lparr>tiltCount := 0\<rparr>)"
  using assms by (simp add: andThen_def Let_def)

lemma dateSetLoop_tilted:
  assumes "inTimeSetMenu s" "tiltCount s = 0" "DateSetting_inv (dateToSet s)"
    "\<forall>q\<in>set pre. inputReturns q \<and> readsTilted q"
  shows "dateSetLoop (pre @ rest) s = dateSetLoop rest (dateEdits pre s)"
  using assms
proof (induction pre arbitrary: s)
  case Nil
  then show ?case by simp
next
  case (Cons q pre)
  let ?s1 = "outcomeState (processDateSetInput q s)"
  have q: "inputReturns q" "readsTilted q" and pre: "\<forall>q\<in>set pre. inputReturns q \<and> readsTilted q"
    using Cons.prems(4) by simp_all
  have d: "processDateSetInput q s = Done ?s1"
    using Cons.prems(3) q(1) by (rule processDateSetInput_returns)
  obtain m where m: "sample q = Inr m" "\<not> checkTiltToSave m"
    using q(2) by (auto simp: readsTilted_def split: sum.splits)
  have k: "inTimeSetMenu ?s1" "tiltCount ?s1 = 0" "DateSetting_inv (dateToSet ?s1)"
    using Cons.prems(1,2,3) by (simp_all add: processDateSetInput_keeps processDateSetInput_inv)
  have "dateSetLoop ((q # pre) @ rest) s = dateSetLoop (pre @ rest) (?s1\<lparr>tiltCount := 0\<rparr>)"
    using dateSetLoop_not_level[OF Cons.prems(1) d m] by simp
  also have "?s1\<lparr>tiltCount := 0\<rparr> = ?s1" using k(2) by (rule tiltCount_reset_idle)
  also have "dateSetLoop (pre @ rest) ?s1 = dateSetLoop rest (dateEdits pre ?s1)"
    using Cons.IH[OF k pre] .
  finally show ?case by simp
qed

lemma manageTimeSetPage_first_level:
  assumes "\<forall>q\<in>set pre. inputReturns q \<and> readsTilted q" "inputReturns p" "readsLevel p"
  shows "manageTimeSetPage True (pre @ p # rest) s =
     (let t = timeEdits (pre @ [p])
                (s\<lparr>inTimeSetMenu := True,
                   timeToSet := \<lparr>TimeSetting.hours = hours (systemClock s),
                                  minutes = minutes (systemClock s)\<rparr>,
                   timeFieldSelected := 0, tiltCount := 0\<rparr>)
      in Done (t\<lparr>tiltCount := 1,
                 systemClock := (systemClock s)
                   \<lparr>hours := TimeSetting.hours (timeToSet t),
                    minutes := TimeSetting.minutes (timeToSet t), seconds := 0\<rparr>,
                 inTimeSetMenu := False\<rparr>))"
proof -
  let ?s0 = "s\<lparr>inTimeSetMenu := True,
                 timeToSet := \<lparr>TimeSetting.hours = hours (systemClock s),
                                minutes = minutes (systemClock s)\<rparr>,
                 timeFieldSelected := 0, tiltCount := 0\<rparr>"
  let ?s1 = "timeEdits pre ?s0"
  let ?t = "outcomeState (processTimeSetInput p ?s1)"
  have i: "inTimeSetMenu ?s0" "tiltCount ?s0 = 0" by simp_all
  have k: "inTimeSetMenu ?s1" "tiltCount ?s1 = 0" "systemClock ?s1 = systemClock s"
    by (simp_all add: timeEdits_keeps)
  have d: "processTimeSetInput p ?s1 = Done ?t" using assms(2) by (rule processTimeSetInput_returns)
  have t: "timeEdits (pre @ [p]) ?s0 = ?t" by (simp add: timeEdits_append)
  have "manageTimeSetPage True (pre @ p # rest) s = timeSetLoop (pre @ p # rest) ?s0"
    by (simp add: manageTimeSetPage_def Let_def)
  also have "\<dots> = timeSetLoop (p # rest) ?s1"
    using i assms(1) by (rule timeSetLoop_tilted)
  also have "\<dots> = Done (?t\<lparr>tiltCount := tiltCount ?s1 + 1,
             systemClock := (systemClock ?s1)
               \<lparr>hours := TimeSetting.hours (timeToSet ?t),
                minutes := TimeSetting.minutes (timeToSet ?t), seconds := 0\<rparr>,
             inTimeSetMenu := False\<rparr>)"
    using k(1) _ d assms(3) by (rule timeSetLoop_level) (simp add: k(2))
  finally show ?thesis unfolding t Let_def k by simp
qed

lemma manageTimeSetPage_all_tilted:
  assumes "\<forall>q\<in>set ps. inputReturns q \<and> readsTilted q"
  shows "manageTimeSetPage True ps s =
     Stopped AwaitingInput (timeEdits ps
                (s\<lparr>inTimeSetMenu := True,
                   timeToSet := \<lparr>TimeSetting.hours = hours (systemClock s),
                                  minutes = minutes (systemClock s)\<rparr>,
                   timeFieldSelected := 0, tiltCount := 0\<rparr>))"
proof -
  let ?s0 = "s\<lparr>inTimeSetMenu := True,
                 timeToSet := \<lparr>TimeSetting.hours = hours (systemClock s),
                                minutes = minutes (systemClock s)\<rparr>,
                 timeFieldSelected := 0, tiltCount := 0\<rparr>"
  have i: "inTimeSetMenu ?s0" "tiltCount ?s0 = 0" by simp_all
  have "manageTimeSetPage True ps s = timeSetLoop (ps @ []) ?s0"
    by (simp add: manageTimeSetPage_def Let_def)
  also have "\<dots> = timeSetLoop [] (timeEdits ps ?s0)"
    using i assms by (rule timeSetLoop_tilted)
  finally show ?thesis by (simp add: timeEdits_keeps)
qed

lemma manageDateSetPage_first_level:
  assumes "DateSetting_inv \<lparr>DateSetting.day = day (systemClock s), month = month (systemClock s)\<rparr>"
    "\<forall>q\<in>set pre. inputReturns q \<and> readsTilted q" "inputReturns p" "readsLevel p"
  shows "manageDateSetPage True (pre @ p # rest) s =
     (let t = dateEdits (pre @ [p])
                (s\<lparr>inTimeSetMenu := True,
                   dateToSet := \<lparr>DateSetting.day = day (systemClock s),
                                  month = month (systemClock s)\<rparr>,
                   dateFieldSelected := 0, tiltCount := 0\<rparr>)
      in Done (t\<lparr>tiltCount := 1,
                 systemClock := (systemClock s)
                   \<lparr>day := DateSetting.day (dateToSet t),
                    month := DateSetting.month (dateToSet t)\<rparr>,
                 inTimeSetMenu := False\<rparr>))"
proof -
  let ?s0 = "s\<lparr>inTimeSetMenu := True,
                 dateToSet := \<lparr>DateSetting.day = day (systemClock s),
                                month = month (systemClock s)\<rparr>,
                 dateFieldSelected := 0, tiltCount := 0\<rparr>"
  let ?s1 = "dateEdits pre ?s0"
  let ?t = "outcomeState (processDateSetInput p ?s1)"
  have i: "inTimeSetMenu ?s0" "tiltCount ?s0 = 0" "DateSetting_inv (dateToSet ?s0)"
    using assms(1) by simp_all
  have k: "inTimeSetMenu ?s1" "tiltCount ?s1 = 0" "systemClock ?s1 = systemClock s"
    by (simp_all add: dateEdits_keeps)
  have v: "DateSetting_inv (dateToSet ?s1)" using i(3) by (rule dateEdits_inv)
  have d: "processDateSetInput p ?s1 = Done ?t"
    using v assms(3) by (rule processDateSetInput_returns)
  have t: "dateEdits (pre @ [p]) ?s0 = ?t" by (simp add: dateEdits_append)
  have "manageDateSetPage True (pre @ p # rest) s = dateSetLoop (pre @ p # rest) ?s0"
    by (simp add: manageDateSetPage_def Let_def)
  also have "\<dots> = dateSetLoop (p # rest) ?s1"
    using i assms(2) by (rule dateSetLoop_tilted)
  also have "\<dots> = Done (?t\<lparr>tiltCount := tiltCount ?s1 + 1,
             systemClock := (systemClock ?s1)
               \<lparr>day := DateSetting.day (dateToSet ?t),
                month := DateSetting.month (dateToSet ?t)\<rparr>,
             inTimeSetMenu := False\<rparr>)"
    using k(1) _ d assms(4) by (rule dateSetLoop_level) (simp add: k(2))
  finally show ?thesis unfolding t Let_def k by simp
qed


lemma manageDateSetPage_all_tilted:
  assumes "DateSetting_inv \<lparr>DateSetting.day = day (systemClock s), month = month (systemClock s)\<rparr>"
    "\<forall>q\<in>set ps. inputReturns q \<and> readsTilted q"
  shows "manageDateSetPage True ps s =
     Stopped AwaitingInput (dateEdits ps
                (s\<lparr>inTimeSetMenu := True,
                   dateToSet := \<lparr>DateSetting.day = day (systemClock s),
                                  month = month (systemClock s)\<rparr>,
                   dateFieldSelected := 0, tiltCount := 0\<rparr>))"
proof -
  let ?s0 = "(s\<lparr>inTimeSetMenu := True,
                   dateToSet := \<lparr>DateSetting.day = day (systemClock s),
                                  month = month (systemClock s)\<rparr>,
                   dateFieldSelected := 0, tiltCount := 0\<rparr>)"
  have i: "inTimeSetMenu ?s0" "tiltCount ?s0 = 0" "DateSetting_inv (dateToSet ?s0)"
    using assms(1) by simp_all
  have "manageDateSetPage True ps s = dateSetLoop (ps @ []) ?s0"
    by (simp add: manageDateSetPage_def Let_def)
  also have "\<dots> = dateSetLoop [] (dateEdits ps ?s0)"
    using i assms(2) by (rule dateSetLoop_tilted)
  finally show ?thesis by (simp add: dateEdits_keeps)
qed

lemma readsTilted_not_level: "readsTilted q \<Longrightarrow> \<not> readsLevel q"
  by (simp add: readsTilted_def readsLevel_def split: sum.splits)

lemma levelStreak_first_level:
  assumes "\<forall>q\<in>set pre. readsTilted q" "readsLevel p"
  shows "levelStreak (pre @ [p]) = 1"
proof -
  have "takeWhile readsLevel (rev pre) = []"
    using assms(1) readsTilted_not_level by (cases "rev pre" rule: list.exhaust) (auto simp: takeWhile_eq_Nil_iff)
  then show ?thesis using assms(2) by (simp add: levelStreak_def)
qed

lemma manageTimeSetPage_done_level:
  assumes "isDone (manageTimeSetPage e ps s)"
  shows "\<exists>q\<in>set ps. readsLevel q"
proof (rule ccontr)
  assume "\<not> (\<exists>q\<in>set ps. readsLevel q)"
  then have a: "\<forall>q\<in>set ps. \<not> readsLevel q" by blast
  have "inTimeSetMenu (s\<lparr>inTimeSetMenu := True,
                   timeToSet := \<lparr>TimeSetting.hours = hours (systemClock s),
                                  minutes = minutes (systemClock s)\<rparr>,
                   timeFieldSelected := 0, tiltCount := 0\<rparr>)" by simp
  from timeSetLoop_no_commit[OF this a] assms
  show False by (cases e) (simp_all add: manageTimeSetPage_def Let_def)
qed

lemma manageDateSetPage_done_level:
  assumes "isDone (manageDateSetPage e ps s)"
  shows "\<exists>q\<in>set ps. readsLevel q"
proof (rule ccontr)
  assume "\<not> (\<exists>q\<in>set ps. readsLevel q)"
  then have a: "\<forall>q\<in>set ps. \<not> readsLevel q" by blast
  have "inTimeSetMenu (s\<lparr>inTimeSetMenu := True,
                   dateToSet := \<lparr>DateSetting.day = day (systemClock s),
                                  month = month (systemClock s)\<rparr>,
                   dateFieldSelected := 0, tiltCount := 0\<rparr>)" by simp
  from dateSetLoop_no_commit[OF this a] assms
  show False by (cases e) (simp_all add: manageDateSetPage_def Let_def)
qed

lemma manageTimeSetPage_no_level:
  assumes "\<forall>q\<in>set ps. \<not> readsLevel q"
  shows "\<not> isDone (manageTimeSetPage e ps s)"
    "systemClock (outcomeState (manageTimeSetPage e ps s)) = systemClock s"
proof -
  have "inTimeSetMenu (s\<lparr>inTimeSetMenu := True,
                   timeToSet := \<lparr>TimeSetting.hours = hours (systemClock s),
                                  minutes = minutes (systemClock s)\<rparr>,
                   timeFieldSelected := 0, tiltCount := 0\<rparr>)" by simp
  from timeSetLoop_no_commit[OF this assms]
  show "\<not> isDone (manageTimeSetPage e ps s)"
    "systemClock (outcomeState (manageTimeSetPage e ps s)) = systemClock s"
    by (simp_all add: manageTimeSetPage_def Let_def)
qed

lemma manageDateSetPage_no_level:
  assumes "\<forall>q\<in>set ps. \<not> readsLevel q"
  shows "\<not> isDone (manageDateSetPage e ps s)"
    "systemClock (outcomeState (manageDateSetPage e ps s)) = systemClock s"
proof -
  have "inTimeSetMenu (s\<lparr>inTimeSetMenu := True,
                   dateToSet := \<lparr>DateSetting.day = day (systemClock s),
                                  month = month (systemClock s)\<rparr>,
                   dateFieldSelected := 0, tiltCount := 0\<rparr>)" by simp
  from dateSetLoop_no_commit[OF this assms]
  show "\<not> isDone (manageDateSetPage e ps s)"
    "systemClock (outcomeState (manageDateSetPage e ps s)) = systemClock s"
    by (simp_all add: manageDateSetPage_def Let_def)
qed

lemma manageTimeSetPage_done_frame:
  assumes d: "isDone (manageTimeSetPage e ps s)"
  shows "hours (systemClock (outcomeState (manageTimeSetPage e ps s))) =
        TimeSetting.hours (timeToSet (outcomeState (manageTimeSetPage e ps s)))
      \<and> minutes (systemClock (outcomeState (manageTimeSetPage e ps s))) =
        TimeSetting.minutes (timeToSet (outcomeState (manageTimeSetPage e ps s)))
      \<and> seconds (systemClock (outcomeState (manageTimeSetPage e ps s))) = 0
      \<and> day (systemClock (outcomeState (manageTimeSetPage e ps s))) = day (systemClock s)
      \<and> month (systemClock (outcomeState (manageTimeSetPage e ps s))) = month (systemClock s)"
proof -
  let ?s1 = "(s\<lparr>inTimeSetMenu := True,
                   timeToSet := \<lparr>TimeSetting.hours = hours (systemClock s),
                                  minutes = minutes (systemClock s)\<rparr>,
                   timeFieldSelected := 0, tiltCount := 0\<rparr>)"
  have e: "e" using d by (cases e) (simp_all add: manageTimeSetPage_def Let_def)
  then have m: "manageTimeSetPage e ps s = timeSetLoop ps ?s1"
    by (simp add: manageTimeSetPage_def Let_def)
  have i: "inTimeSetMenu ?s1" by simp
  from timeSetLoop_commit_frame[OF i] d
  show ?thesis unfolding m by simp
qed

lemma manageDateSetPage_done_frame:
  assumes d: "isDone (manageDateSetPage e ps s)"
  shows "day (systemClock (outcomeState (manageDateSetPage e ps s))) =
        DateSetting.day (dateToSet (outcomeState (manageDateSetPage e ps s)))
      \<and> month (systemClock (outcomeState (manageDateSetPage e ps s))) =
        DateSetting.month (dateToSet (outcomeState (manageDateSetPage e ps s)))
      \<and> hours (systemClock (outcomeState (manageDateSetPage e ps s))) = hours (systemClock s)
      \<and> minutes (systemClock (outcomeState (manageDateSetPage e ps s))) = minutes (systemClock s)
      \<and> seconds (systemClock (outcomeState (manageDateSetPage e ps s))) = seconds (systemClock s)"
proof -
  let ?s1 = "(s\<lparr>inTimeSetMenu := True,
                   dateToSet := \<lparr>DateSetting.day = day (systemClock s),
                                  month = month (systemClock s)\<rparr>,
                   dateFieldSelected := 0, tiltCount := 0\<rparr>)"
  have e: "e" using d by (cases e) (simp_all add: manageDateSetPage_def Let_def)
  then have m: "manageDateSetPage e ps s = dateSetLoop ps ?s1"
    by (simp add: manageDateSetPage_def Let_def)
  have i: "inTimeSetMenu ?s1" by simp
  from dateSetLoop_commit_frame[OF i] d
  show ?thesis unfolding m by simp
qed

lemma ClockTime_time_update:
  "c\<lparr>hours := a, minutes := b, seconds := d\<rparr> =
     \<lparr>hours = a, minutes = b, seconds = d, day = day c, month = month c\<rparr>"
  by (cases c) simp

lemma ClockTime_date_update:
  "c\<lparr>day := a, month := b\<rparr> =
     \<lparr>hours = hours c, minutes = minutes c, seconds = seconds c, day = a, month = b\<rparr>"
  by (cases c) simp

lemma manageTimeSetPage_level_clock:
  assumes "\<forall>q\<in>set pre. inputReturns q \<and> readsTilted q" "inputReturns p" "readsLevel p"
  shows "(let r = manageTimeSetPage True (pre @ p # rest) s;
           t = timeEdits (pre @ [p])
                (s\<lparr>inTimeSetMenu := True,
                   timeToSet := \<lparr>TimeSetting.hours = hours (systemClock s),
                                  minutes = minutes (systemClock s)\<rparr>,
                   timeFieldSelected := 0, tiltCount := 0\<rparr>)
       in isDone r
          \<and> systemClock (outcomeState r) =
              \<lparr>hours = TimeSetting.hours (timeToSet t),
               minutes = TimeSetting.minutes (timeToSet t), seconds = 0,
               day = day (systemClock s), month = month (systemClock s)\<rparr>
          \<and> timeToSet (outcomeState r) = timeToSet t)"
  unfolding manageTimeSetPage_first_level[OF assms]
  by (simp add: Let_def ClockTime_time_update)

lemma manageDateSetPage_level_clock:
  assumes "DateSetting_inv \<lparr>DateSetting.day = day (systemClock s), month = month (systemClock s)\<rparr>"
    "\<forall>q\<in>set pre. inputReturns q \<and> readsTilted q" "inputReturns p" "readsLevel p"
  shows "(let r = manageDateSetPage True (pre @ p # rest) s;
           t = dateEdits (pre @ [p])
                (s\<lparr>inTimeSetMenu := True,
                   dateToSet := \<lparr>DateSetting.day = day (systemClock s),
                                  month = month (systemClock s)\<rparr>,
                   dateFieldSelected := 0, tiltCount := 0\<rparr>)
       in isDone r
          \<and> systemClock (outcomeState r) =
              \<lparr>hours = hours (systemClock s), minutes = minutes (systemClock s),
               seconds = seconds (systemClock s),
               day = DateSetting.day (dateToSet t), month = DateSetting.month (dateToSet t)\<rparr>
          \<and> dateToSet (outcomeState r) = dateToSet t)"
  unfolding manageDateSetPage_first_level[OF assms]
  by (simp add: Let_def ClockTime_date_update)

text \<open>
  Claim C5, amended. The set-time page commits at the first poll that reads level: the
  streak that confirms is one poll long (\<open>tiltCount >= 1\<close>). After polls that read a
  magnitude at or above the tilt threshold, with every wait for release ending, the first
  poll that reads level ends the page, whatever polls would follow: the page returns with
  the globals as the inputs up to that poll left them, the counter at 1, the menu flag
  cleared, and the draft's hours and minutes and seconds 0 in the clock; the streak of
  level polls is then 1. Over polls all at or above the threshold the page is still polling
  afterwards, with the counter at 0, where each such poll sets it. Over polls none of which
  reads level the page does not return and the clock is as it was.
\<close>

theorem manageTimeSetPage_commits_at_first_level_poll:
  "((\<forall>q\<in>set pre. inputReturns q \<and> readsTilted q) \<and> inputReturns p \<and> readsLevel p \<longrightarrow>
      manageTimeSetPage True (pre @ p # rest) s =
        (let t = timeEdits (pre @ [p])
                   (s\<lparr>inTimeSetMenu := True,
                   timeToSet := \<lparr>TimeSetting.hours = hours (systemClock s),
                                  minutes = minutes (systemClock s)\<rparr>,
                   timeFieldSelected := 0, tiltCount := 0\<rparr>)
         in Done (t\<lparr>tiltCount := 1,
                    systemClock := (systemClock s)
                      \<lparr>hours := TimeSetting.hours (timeToSet t),
                       minutes := TimeSetting.minutes (timeToSet t), seconds := 0\<rparr>,
                    inTimeSetMenu := False\<rparr>))
      \<and> levelStreak (pre @ [p]) = 1)
   \<and> ((\<forall>q\<in>set ps. inputReturns q \<and> readsTilted q) \<longrightarrow>
      manageTimeSetPage True ps s =
        Stopped AwaitingInput (timeEdits ps
                   (s\<lparr>inTimeSetMenu := True,
                   timeToSet := \<lparr>TimeSetting.hours = hours (systemClock s),
                                  minutes = minutes (systemClock s)\<rparr>,
                   timeFieldSelected := 0, tiltCount := 0\<rparr>))
      \<and> tiltCount (outcomeState (manageTimeSetPage True ps s)) = 0
      \<and> levelStreak ps = 0)
   \<and> ((\<forall>q\<in>set ps. \<not> readsLevel q) \<longrightarrow>
      \<not> isDone (manageTimeSetPage e ps s)
      \<and> systemClock (outcomeState (manageTimeSetPage e ps s)) = systemClock s)"
proof (intro conjI impI)
  assume a: "(\<forall>q\<in>set pre. inputReturns q \<and> readsTilted q) \<and> inputReturns p \<and> readsLevel p"
  then show "manageTimeSetPage True (pre @ p # rest) s =
        (let t = timeEdits (pre @ [p])
                   (s\<lparr>inTimeSetMenu := True,
                   timeToSet := \<lparr>TimeSetting.hours = hours (systemClock s),
                                  minutes = minutes (systemClock s)\<rparr>,
                   timeFieldSelected := 0, tiltCount := 0\<rparr>)
         in Done (t\<lparr>tiltCount := 1,
                    systemClock := (systemClock s)
                      \<lparr>hours := TimeSetting.hours (timeToSet t),
                       minutes := TimeSetting.minutes (timeToSet t), seconds := 0\<rparr>,
                    inTimeSetMenu := False\<rparr>))"
    by (intro manageTimeSetPage_first_level) simp_all
  from a show "levelStreak (pre @ [p]) = 1"
    by (intro levelStreak_first_level) simp_all
next
  assume a: "\<forall>q\<in>set ps. inputReturns q \<and> readsTilted q"
  then show e: "manageTimeSetPage True ps s =
        Stopped AwaitingInput (timeEdits ps
                   (s\<lparr>inTimeSetMenu := True,
                   timeToSet := \<lparr>TimeSetting.hours = hours (systemClock s),
                                  minutes = minutes (systemClock s)\<rparr>,
                   timeFieldSelected := 0, tiltCount := 0\<rparr>))"
    by (rule manageTimeSetPage_all_tilted)
  show "tiltCount (outcomeState (manageTimeSetPage True ps s)) = 0"
    unfolding e by (simp add: timeEdits_keeps)
  have "takeWhile readsLevel (rev ps) = []"
    using a readsTilted_not_level by (cases "rev ps" rule: list.exhaust) (auto simp: takeWhile_eq_Nil_iff)
  then show "levelStreak ps = 0" by (simp add: levelStreak_def)
next
  assume a: "\<forall>q\<in>set ps. \<not> readsLevel q"
  then show "\<not> isDone (manageTimeSetPage e ps s)"
    "systemClock (outcomeState (manageTimeSetPage e ps s)) = systemClock s"
    by (rule manageTimeSetPage_no_level)+
qed

theorem manageTimeSetPage_commits_at_first_level_poll_witness:
  "inputReturns \<lparr>button1Pressed = False, button2Pressed = False, released = True, sample = Inr 700\<rparr>
   \<and> readsTilted \<lparr>button1Pressed = False, button2Pressed = False, released = True, sample = Inr 700\<rparr>
   \<and> \<not> readsLevel \<lparr>button1Pressed = False, button2Pressed = False, released = True, sample = Inr 700\<rparr>
   \<and> inputReturns \<lparr>button1Pressed = True, button2Pressed = False, released = True, sample = Inr 100\<rparr>
   \<and> readsLevel \<lparr>button1Pressed = True, button2Pressed = False, released = True, sample = Inr 100\<rparr>
   \<and> manageTimeSetPage True
        [\<lparr>button1Pressed = False, button2Pressed = False, released = True, sample = Inr 700\<rparr>,
         \<lparr>button1Pressed = True, button2Pressed = False, released = True, sample = Inr 100\<rparr>,
         \<lparr>button1Pressed = False, button2Pressed = False, released = True, sample = Inr 700\<rparr>]
        (initialState\<lparr>systemClock := \<lparr>hours = 4, minutes = 0, seconds = 30, day = 24, month = 1\<rparr>\<rparr>) =
       Done (initialState\<lparr>timeToSet := \<lparr>TimeSetting.hours = 5, minutes = 0\<rparr>,
               systemClock := \<lparr>hours = 5, minutes = 0, seconds = 0, day = 24, month = 1\<rparr>,
               tiltCount := 1\<rparr>)
   \<and> manageTimeSetPage True
        [\<lparr>button1Pressed = False, button2Pressed = False, released = True, sample = Inr 700\<rparr>,
         \<lparr>button1Pressed = False, button2Pressed = False, released = True, sample = Inr 700\<rparr>]
        (initialState\<lparr>systemClock := \<lparr>hours = 4, minutes = 0, seconds = 30, day = 24, month = 1\<rparr>\<rparr>) =
       Stopped AwaitingInput
         (initialState\<lparr>inTimeSetMenu := True,
            systemClock := \<lparr>hours = 4, minutes = 0, seconds = 30, day = 24, month = 1\<rparr>\<rparr>)"
  using manageTimeSetPage_commits_at_first_level_poll
      [where pre = "[\<lparr>button1Pressed = False, button2Pressed = False, released = True, sample = Inr 700\<rparr>]"
         and p = "\<lparr>button1Pressed = True, button2Pressed = False, released = True, sample = Inr 100\<rparr>"
         and rest = "[\<lparr>button1Pressed = False, button2Pressed = False, released = True, sample = Inr 700\<rparr>]"
         and s = "(initialState\<lparr>systemClock := \<lparr>hours = 4, minutes = 0, seconds = 30, day = 24, month = 1\<rparr>\<rparr>)"
         and e = True
         and ps = "[\<lparr>button1Pressed = False, button2Pressed = False, released = True, sample = Inr 700\<rparr>,
                    \<lparr>button1Pressed = False, button2Pressed = False, released = True, sample = Inr 700\<rparr>]"]
  by (simp add: initialState_def processTimeSetInput_def awaitRelease_def andThen_def
      outcomeState_def inputReturns_def readsTilted_def readsLevel_def checkTiltToSave_def
      TILT_THRESHOLD_def levelStreak_def Let_def)

text \<open>
  The claim as worded fails: no streak of consecutive level polls is needed. Directly after
  a poll at the tilt threshold or above, a single poll that reads level (magnitude 100)
  makes the page return with the clock overwritten (seconds 30 become 0); the streak at
  that moment is 1. The counter is 0 when the loop starts and 0 after a tilted poll: it
  never holds a value for the reset to undo.
\<close>

theorem manageTimeSetPage_single_level_poll_counterexample:
  "levelStreak
        [\<lparr>button1Pressed = False, button2Pressed = False, released = True, sample = Inr 700\<rparr>,
         \<lparr>button1Pressed = False, button2Pressed = False, released = True, sample = Inr 100\<rparr>] = 1
   \<and> isDone (manageTimeSetPage True
        [\<lparr>button1Pressed = False, button2Pressed = False, released = True, sample = Inr 700\<rparr>,
         \<lparr>button1Pressed = False, button2Pressed = False, released = True, sample = Inr 100\<rparr>]
        (initialState\<lparr>systemClock := \<lparr>hours = 4, minutes = 0, seconds = 30, day = 24, month = 1\<rparr>\<rparr>))
   \<and> systemClock (outcomeState (manageTimeSetPage True
        [\<lparr>button1Pressed = False, button2Pressed = False, released = True, sample = Inr 700\<rparr>,
         \<lparr>button1Pressed = False, button2Pressed = False, released = True, sample = Inr 100\<rparr>]
        (initialState\<lparr>systemClock := \<lparr>hours = 4, minutes = 0, seconds = 30, day = 24, month = 1\<rparr>\<rparr>))) =
       \<lparr>hours = 4, minutes = 0, seconds = 0, day = 24, month = 1\<rparr>
   \<and> tiltCount (outcomeState (manageTimeSetPage True [] (initialState\<lparr>systemClock := \<lparr>hours = 4, minutes = 0, seconds = 30, day = 24, month = 1\<rparr>\<rparr>))) = 0
   \<and> tiltCount (outcomeState (manageTimeSetPage True
        [\<lparr>button1Pressed = False, button2Pressed = False, released = True, sample = Inr 700\<rparr>]
        (initialState\<lparr>systemClock := \<lparr>hours = 4, minutes = 0, seconds = 30, day = 24, month = 1\<rparr>\<rparr>))) = 0"
  by (simp add: initialState_def manageTimeSetPage_def processTimeSetInput_def
      awaitRelease_def andThen_def outcomeState_def isDone_def readsLevel_def
      checkTiltToSave_def TILT_THRESHOLD_def levelStreak_def Let_def)

text \<open>
  Claim C10. On the set-time page, after polls at or above the tilt threshold, the first
  poll that reads level makes the page return (every wait for release ending), and the
  clock then has the hours and minutes of the draft, which is the entry clock's hours and
  minutes as changed by the inputs up to that poll, seconds 0, and the day and month of
  entry. On the set-date page, entered with a date of the table, the clock then has the day
  and month of the draft and the hours, minutes and seconds of entry. Whenever either page
  returns, some poll has read level and the same holds of the clock and the draft at
  return; and over polls none of which reads level neither page changes the clock.
\<close>

theorem tilt_confirmation_commits_draft:
  "((\<forall>q\<in>set pre. inputReturns q \<and> readsTilted q) \<and> inputReturns p \<and> readsLevel p \<longrightarrow>
      (let r = manageTimeSetPage True (pre @ p # rest) s;
           t = timeEdits (pre @ [p])
                (s\<lparr>inTimeSetMenu := True,
                   timeToSet := \<lparr>TimeSetting.hours = hours (systemClock s),
                                  minutes = minutes (systemClock s)\<rparr>,
                   timeFieldSelected := 0, tiltCount := 0\<rparr>)
       in isDone r
          \<and> systemClock (outcomeState r) =
              \<lparr>hours = TimeSetting.hours (timeToSet t),
               minutes = TimeSetting.minutes (timeToSet t), seconds = 0,
               day = day (systemClock s), month = month (systemClock s)\<rparr>
          \<and> timeToSet (outcomeState r) = timeToSet t))
   \<and> (DateSetting_inv \<lparr>DateSetting.day = day (systemClock s), month = month (systemClock s)\<rparr>
      \<and> (\<forall>q\<in>set pre. inputReturns q \<and> readsTilted q) \<and> inputReturns p \<and> readsLevel p \<longrightarrow>
      (let r = manageDateSetPage True (pre @ p # rest) s;
           t = dateEdits (pre @ [p])
                (s\<lparr>inTimeSetMenu := True,
                   dateToSet := \<lparr>DateSetting.day = day (systemClock s),
                                  month = month (systemClock s)\<rparr>,
                   dateFieldSelected := 0, tiltCount := 0\<rparr>)
       in isDone r
          \<and> systemClock (outcomeState r) =
              \<lparr>hours = hours (systemClock s), minutes = minutes (systemClock s),
               seconds = seconds (systemClock s),
               day = DateSetting.day (dateToSet t), month = DateSetting.month (dateToSet t)\<rparr>
          \<and> dateToSet (outcomeState r) = dateToSet t))
   \<and> (isDone (manageTimeSetPage e ps s) \<longrightarrow>
      (\<exists>q\<in>set ps. readsLevel q)
      \<and> hours (systemClock (outcomeState (manageTimeSetPage e ps s))) =
        TimeSetting.hours (timeToSet (outcomeState (manageTimeSetPage e ps s)))
      \<and> minutes (systemClock (outcomeState (manageTimeSetPage e ps s))) =
        TimeSetting.minutes (timeToSet (outcomeState (manageTimeSetPage e ps s)))
      \<and> seconds (systemClock (outcomeState (manageTimeSetPage e ps s))) = 0
      \<and> day (systemClock (outcomeState (manageTimeSetPage e ps s))) = day (systemClock s)
      \<and> month (systemClock (outcomeState (manageTimeSetPage e ps s))) = month (systemClock s))
   \<and> (isDone (manageDateSetPage e ps s) \<longrightarrow>
      (\<exists>q\<in>set ps. readsLevel q)
      \<and> day (systemClock (outcomeState (manageDateSetPage e ps s))) =
        DateSetting.day (dateToSet (outcomeState (manageDateSetPage e ps s)))
      \<and> month (systemClock (outcomeState (manageDateSetPage e ps s))) =
        DateSetting.month (dateToSet (outcomeState (manageDateSetPage e ps s)))
      \<and> hours (systemClock (outcomeState (manageDateSetPage e ps s))) = hours (systemClock s)
      \<and> minutes (systemClock (outcomeState (manageDateSetPage e ps s))) = minutes (systemClock s)
      \<and> seconds (systemClock (outcomeState (manageDateSetPage e ps s))) = seconds (systemClock s))
   \<and> ((\<forall>q\<in>set ps. \<not> readsLevel q) \<longrightarrow>
      systemClock (outcomeState (manageTimeSetPage e ps s)) = systemClock s
      \<and> systemClock (outcomeState (manageDateSetPage e ps s)) = systemClock s)"
  using manageTimeSetPage_level_clock[of pre p rest s]
    manageDateSetPage_level_clock[of s pre p rest]
    manageTimeSetPage_done_level[of e ps s] manageTimeSetPage_done_frame[of e ps s]
    manageDateSetPage_done_level[of e ps s] manageDateSetPage_done_frame[of e ps s]
    manageTimeSetPage_no_level(2)[of ps e s] manageDateSetPage_no_level(2)[of ps e s]
  by blast

theorem tilt_confirmation_commits_draft_witness:
  "inputReturns \<lparr>button1Pressed = False, button2Pressed = False, released = True, sample = Inr 700\<rparr>
   \<and> readsTilted \<lparr>button1Pressed = False, button2Pressed = False, released = True, sample = Inr 700\<rparr>
   \<and> inputReturns \<lparr>button1Pressed = True, button2Pressed = False, released = True, sample = Inr 100\<rparr>
   \<and> readsLevel \<lparr>button1Pressed = True, button2Pressed = False, released = True, sample = Inr 100\<rparr>
   \<and> DateSetting_inv \<lparr>DateSetting.day = 24, month = 1\<rparr>
   \<and> isDone (manageTimeSetPage True
        [\<lparr>button1Pressed = False, button2Pressed = False, released = True, sample = Inr 700\<rparr>,
         \<lparr>button1Pressed = True, button2Pressed = False, released = True, sample = Inr 100\<rparr>]
        (initialState\<lparr>systemClock := \<lparr>hours = 4, minutes = 0, seconds = 30, day = 24, month = 1\<rparr>\<rparr>))
   \<and> systemClock (outcomeState (manageTimeSetPage True
        [\<lparr>button1Pressed = False, button2Pressed = False, released = True, sample = Inr 700\<rparr>,
         \<lparr>button1Pressed = True, button2Pressed = False, released = True, sample = Inr 100\<rparr>]
        (initialState\<lparr>systemClock := \<lparr>hours = 4, minutes = 0, seconds = 30, day = 24, month = 1\<rparr>\<rparr>))) =
       \<lparr>hours = 5, minutes = 0, seconds = 0, day = 24, month = 1\<rparr>
   \<and> isDone (manageDateSetPage True
        [\<lparr>button1Pressed = False, button2Pressed = False, released = True, sample = Inr 700\<rparr>,
         \<lparr>button1Pressed = True, button2Pressed = False, released = True, sample = Inr 100\<rparr>]
        (initialState\<lparr>systemClock := \<lparr>hours = 4, minutes = 0, seconds = 30, day = 24, month = 1\<rparr>\<rparr>))
   \<and> systemClock (outcomeState (manageDateSetPage True
        [\<lparr>button1Pressed = False, button2Pressed = False, released = True, sample = Inr 700\<rparr>,
         \<lparr>button1Pressed = True, button2Pressed = False, released = True, sample = Inr 100\<rparr>]
        (initialState\<lparr>systemClock := \<lparr>hours = 4, minutes = 0, seconds = 30, day = 24, month = 1\<rparr>\<rparr>))) =
       \<lparr>hours = 4, minutes = 0, seconds = 30, day = 25, month = 1\<rparr>
   \<and> systemClock (outcomeState (manageDateSetPage True
        [\<lparr>button1Pressed = False, button2Pressed = False, released = True, sample = Inr 700\<rparr>]
        (initialState\<lparr>systemClock := \<lparr>hours = 4, minutes = 0, seconds = 30, day = 24, month = 1\<rparr>\<rparr>))) =
       \<lparr>hours = 4, minutes = 0, seconds = 30, day = 24, month = 1\<rparr>"
  using tilt_confirmation_commits_draft
      [where pre = "[\<lparr>button1Pressed = False, button2Pressed = False, released = True, sample = Inr 700\<rparr>]"
         and p = "\<lparr>button1Pressed = True, button2Pressed = False, released = True, sample = Inr 100\<rparr>"
         and rest = "[]"
         and s = "(initialState\<lparr>systemClock := \<lparr>hours = 4, minutes = 0, seconds = 30, day = 24, month = 1\<rparr>\<rparr>)"
         and e = True
         and ps = "[\<lparr>button1Pressed = False, button2Pressed = False, released = True, sample = Inr 700\<rparr>,
                    \<lparr>button1Pressed = True, button2Pressed = False, released = True, sample = Inr 100\<rparr>]"]
    tilt_confirmation_commits_draft
      [where s = "(initialState\<lparr>systemClock := \<lparr>hours = 4, minutes = 0, seconds = 30, day = 24, month = 1\<rparr>\<rparr>)"
         and e = True
         and ps = "[\<lparr>button1Pressed = False, button2Pressed = False, released = True, sample = Inr 700\<rparr>]"]
  by (simp add: initialState_def manageTimeSetPage_def manageDateSetPage_def
      processTimeSetInput_def processDateSetInput_def awaitRelease_def andThen_def
      outcomeState_def isDone_def inputReturns_def readsTilted_def readsLevel_def
      checkTiltToSave_def TILT_THRESHOLD_def DateSetting_inv_def
      DAYS_PER_MONTH_at_def DAYS_PER_MONTH_def Let_def)

end
